theory Spec2Isabelle
  imports Complex_Main "HOL-Library.Log_Nat"
begin

section \<open>Parking management: data model\<close>

text \<open>
  Instants are JavaScript \<open>Date.getTime()\<close> values: whole milliseconds since the epoch
  (the store keeps \<open>TIMESTAMP(3)\<close>). A JavaScript \<open>number\<close> is an IEEE 754 double: a
  finite one is modelled by the rational it denotes, and every arithmetic operation
  rounds its exact result to the nearest double, ties to even. Money in the store is
  \<open>DECIMAL(10,2)\<close>, modelled by exact rationals.
\<close>

subsection \<open>Double-precision arithmetic\<close>

text \<open>
  \<open>exponent x\<close> is the binary exponent of \<open>x \<noteq> 0\<close>, that is \<open>\<lfloor>log\<^sub>2 \<bar>x\<bar>\<rfloor>\<close>; \<open>fl\<close> rounds a
  rational to the nearest number with a 53-bit significand (gradual underflow below
  \<open>2\<^sup>-\<^sup>1\<^sup>0\<^sup>2\<^sup>2\<close>), and \<open>toNumber\<close> is the result of an operation whose exact value is \<open>x\<close>:
  \<open>None\<close> when the rounded value overflows to an infinity.
\<close>

definition exponent :: "rat \<Rightarrow> int" where
  "exponent x = (if 1 \<le> \<bar>x\<bar> then bitlen \<lfloor>\<bar>x\<bar>\<rfloor> - 1 else - bitlen (\<lceil>1 / \<bar>x\<bar>\<rceil> - 1))"

definition round_half_even :: "rat \<Rightarrow> int" where
  "round_half_even q =
     (let f = \<lfloor>q\<rfloor>; d = q - of_int f
      in if d < 1/2 then f else if 1/2 < d then f + 1 else if even f then f else f + 1)"

definition fl :: "rat \<Rightarrow> rat" where
  "fl x = (if x = 0 then 0
           else let p = max (exponent x - 52) (- 1074)
                in of_int (round_half_even (x / 2 powi p)) * 2 powi p)"

definition toNumber :: "rat \<Rightarrow> rat option" where
  "toNumber x = (let r = fl x in if \<bar>r\<bar> < 2 ^ 1024 then Some r else None)"

subsection \<open>Dates\<close>

text \<open>
  A \<open>Date\<close> holds a time value of at most 8.64e15 milliseconds in magnitude; beyond
  that it is an invalid date, whose \<open>getTime()\<close> is \<open>NaN\<close>.
\<close>

definition validTime :: "int \<Rightarrow> bool" where
  "validTime t \<longleftrightarrow> \<bar>t\<bar> \<le> 8640000000000000"

datatype date_input =
    NoDate        \<comment> \<open>\<open>null\<close>, \<open>undefined\<close> or the empty string: falsy\<close>
  | BadDate       \<comment> \<open>a truthy value whose \<open>new Date(..).getTime()\<close> is \<open>NaN\<close>\<close>
  | DateAt int    \<comment> \<open>a truthy value denoting this instant\<close>

fun getTime :: "date_input \<Rightarrow> int option" where
  "getTime (DateAt t) = (if validTime t then Some t else None)"
| "getTime BadDate = None"
| "getTime NoDate = None"

subsection \<open>Fee calculation of the dashboard (\<open>calculateParkingFee\<close>)\<close>

text \<open>
  The hourly fee is \<open>None\<close> when the argument is \<open>undefined\<close>, \<open>null\<close> or \<open>NaN\<close>, and
  otherwise the finite double passed (an infinite fee, which no JSON response carries, is
  left out); the fourth argument of the model is the wall clock
  read by \<open>new Date()\<close> when no exit is given. The result is a number: \<open>None\<close> stands for
  a product that overflows.
\<close>

definition calculateParkingFee ::
  "rat option \<Rightarrow> date_input \<Rightarrow> date_input \<Rightarrow> int \<Rightarrow> rat option" where
  "calculateParkingFee hourlyFee entryDateTime exitDateTime now =
     (case hourlyFee of
        None \<Rightarrow> Some 0
      | Some fee \<Rightarrow>
          if fee = 0 \<or> fee \<le> 0 \<or> entryDateTime = NoDate then Some 0
          else
            let entry = getTime entryDateTime;
                exit = (if exitDateTime \<noteq> NoDate then getTime exitDateTime else Some now)
            in (case (entry, exit) of
                  (Some en, Some ex) \<Rightarrow>
                    if ex < en then Some 0
                    else
                      let durationMinutes = fl (fl (of_int (ex - en)) / (1000 * 60));
                          hoursCharged = \<lceil>fl (durationMinutes / 60)\<rceil>
                      in toNumber (of_int hoursCharged * fee)
                | _ \<Rightarrow> Some 0))"

subsection \<open>Charge computed by the exit handler (\<open>registerExit\<close>)\<close>

text \<open>
  The handler computes the hours and the amount as numbers and writes the amount to a
  \<open>DECIMAL(10,2)\<close> column, from which the returned entry and the bill read it back.
  \<open>durationInHours\<close> and \<open>exitCharge\<close> are the hours and the amount as stored;
  \<open>jsDurationInHours\<close> and \<open>jsChargedAmount\<close> are the handler's own numbers (the fee column
  is converted by \<open>Number\<close>), and \<open>decimal2\<close> is the column's rounding to two places.
\<close>

definition durationInHours :: "int \<Rightarrow> int \<Rightarrow> int" where
  "durationInHours entryTime exitTime =
     (let durationInMs = exitTime - entryTime
      in \<lceil>(of_int durationInMs :: rat) / (1000 * 60 * 60)\<rceil>)"

definition exitCharge :: "rat \<Rightarrow> int \<Rightarrow> int \<Rightarrow> rat" where
  "exitCharge fee entryTime exitTime = fee * of_int (durationInHours entryTime exitTime)"

definition jsDurationInHours :: "int \<Rightarrow> int \<Rightarrow> int" where
  "jsDurationInHours entryTime exitTime =
     (let durationInMs = fl (of_int (exitTime - entryTime))
      in \<lceil>fl (durationInMs / (1000 * 60 * 60))\<rceil>)"

definition jsChargedAmount :: "rat \<Rightarrow> int \<Rightarrow> int \<Rightarrow> rat option" where
  "jsChargedAmount fee entryTime exitTime =
     toNumber (fl fee * of_int (jsDurationInHours entryTime exitTime))"

definition decimal2 :: "rat \<Rightarrow> rat" where
  "decimal2 x = (if 0 \<le> x then of_int \<lfloor>x * 100 + 1/2\<rfloor> / 100
                 else - (of_int \<lfloor>- x * 100 + 1/2\<rfloor> / 100))"

subsection \<open>The charge as the specification words it\<close>




section \<open>The store and the request handlers\<close>

text \<open>
  The two tables the handlers touch, with the columns they read or write. A parking is
  looked up by its unique \<open>code\<close>, an entry by its primary key; generated columns that no
  handler reads (\<open>createdAt\<close>, \<open>updatedAt\<close>, the parking's own \<open>id\<close>) are left out.
\<close>

record parking =
  code :: string
  name :: string
  totalSpaces :: int
  availableSpaces :: int
  location :: string
  hourlyFee :: rat

record entry =
  entry_id :: string
  plateNumber :: string
  parkingCode :: string
  entryDateTime :: int
  exitDateTime :: "int option"
  chargedAmount :: "rat option"

record store =
  parkings :: "parking list"
  entries :: "entry list"

definition empty_store :: store where
  "empty_store = \<lparr>parkings = [], entries = []\<rparr>"

datatype error = BadRequest | NotFound | Conflict | ServerError

text \<open>
  The failure helpers of the class \<open>ServerResponse\<close> (\<open>utils/response\<close>, whose text is the
  last document of \<open>prisma/migrations/20250520101611_init/migration.sql\<close>): \<open>badRequest\<close>
  answers with \<open>res.status(400)\<close>, \<open>notFound\<close> with \<open>res.status(404)\<close>, \<open>conflict\<close> with
  \<open>res.status(409)\<close>, and \<open>error\<close> with its default status 500, which is how the handlers
  modelled here call it.
\<close>

fun status :: "error \<Rightarrow> nat" where
  "status BadRequest = 400"
| "status NotFound = 404"
| "status Conflict = 409"
| "status ServerError = 500"

record ticket =
  ticketNumber :: string
  ticket_plateNumber :: string
  ticket_parkingName :: string
  ticket_entryDateTime :: int
  ticket_hourlyFee :: rat

record bill =
  billNumber :: string
  bill_plateNumber :: string
  bill_parkingName :: string
  bill_entryDateTime :: int
  bill_exitDateTime :: "int option"
  bill_durationInHours :: int
  bill_hourlyFee :: rat
  totalAmount :: "rat option"

subsection \<open>Store queries\<close>

definition findParking :: "string \<Rightarrow> store \<Rightarrow> parking option" where
  "findParking c s = find (\<lambda>p. code p = c) (parkings s)"

definition findEntry :: "string \<Rightarrow> store \<Rightarrow> entry option" where
  "findEntry i s = find (\<lambda>e. entry_id e = i) (entries s)"

definition findActiveEntry :: "string \<Rightarrow> string \<Rightarrow> store \<Rightarrow> entry option" where
  "findActiveEntry plate c s =
     find (\<lambda>e. plateNumber e = plate \<and> parkingCode e = c \<and> exitDateTime e = None) (entries s)"

definition countActive :: "string \<Rightarrow> store \<Rightarrow> nat" where
  "countActive c s =
     length (filter (\<lambda>e. parkingCode e = c \<and> exitDateTime e = None) (entries s))"

definition updateParkingWhere :: "string \<Rightarrow> (parking \<Rightarrow> parking) \<Rightarrow> store \<Rightarrow> store" where
  "updateParkingWhere c f s =
     s\<lparr>parkings := map (\<lambda>p. if code p = c then f p else p) (parkings s)\<rparr>"

definition updateEntryWhere :: "string \<Rightarrow> (entry \<Rightarrow> entry) \<Rightarrow> store \<Rightarrow> store" where
  "updateEntryWhere i f s =
     s\<lparr>entries := map (\<lambda>e. if entry_id e = i then f e else e) (entries s)\<rparr>"

text \<open>
  The atomic number operation \<open>availableSpaces: {increment: k}\<close> (\<open>decrement: 1\<close> is
  \<open>increment: -1\<close>), and the \<open>data\<close> object with which an exit closes an entry.
\<close>

definition incrementAvailableSpaces :: "int \<Rightarrow> parking \<Rightarrow> parking" where
  "incrementAvailableSpaces k p = p\<lparr>availableSpaces := availableSpaces p + k\<rparr>"

definition exitData :: "int \<Rightarrow> rat \<Rightarrow> entry \<Rightarrow> entry" where
  "exitData now amount e = e\<lparr>exitDateTime := Some now, chargedAmount := Some amount\<rparr>"

subsection \<open>Parking controller\<close>

definition createParking ::
  "string \<Rightarrow> string \<Rightarrow> int \<Rightarrow> string \<Rightarrow> rat \<Rightarrow> store \<Rightarrow> (error + parking) \<times> store" where
  "createParking c nm tot loc fee s =
     (case findParking c s of
        Some existingParking \<Rightarrow> (Inl Conflict, s)
      | None \<Rightarrow>
          let p = \<lparr>code = c, name = nm, totalSpaces = tot, availableSpaces = tot,
                   location = loc, hourlyFee = fee\<rparr>
          in (Inr p, s\<lparr>parkings := parkings s @ [p]\<rparr>))"

text \<open>
  The body fields of an update are optional (\<open>None\<close> is \<open>undefined\<close>). \<open>x || y\<close> keeps the
  old value for every falsy \<open>x\<close>: the empty string and the number zero as well.
\<close>

definition availableSpacesAdjustment :: "parking \<Rightarrow> int option \<Rightarrow> int" where
  "availableSpacesAdjustment existingParking tot =
     (case tot of
        None \<Rightarrow> 0
      | Some t \<Rightarrow> if t \<noteq> totalSpaces existingParking
                  then t - totalSpaces existingParking else 0)"

text \<open>The \<open>data\<close> object of the update, applied to the stored row.\<close>

definition updateData ::
  "parking \<Rightarrow> string option \<Rightarrow> int option \<Rightarrow> string option \<Rightarrow> rat option
     \<Rightarrow> parking \<Rightarrow> parking" where
  "updateData existingParking nm tot loc fee p =
     p\<lparr>name := (case nm of Some n \<Rightarrow> if n \<noteq> [] then n else name existingParking
                  | None \<Rightarrow> name existingParking),
       totalSpaces := (case tot of Some t \<Rightarrow> if t \<noteq> 0 then t else totalSpaces existingParking
                  | None \<Rightarrow> totalSpaces existingParking),
       availableSpaces :=
         availableSpaces (incrementAvailableSpaces (availableSpacesAdjustment existingParking tot) p),
       location := (case loc of Some l \<Rightarrow> if l \<noteq> [] then l else location existingParking
                  | None \<Rightarrow> location existingParking),
       hourlyFee := (case fee of Some f \<Rightarrow> if f \<noteq> 0 then f else hourlyFee existingParking
                  | None \<Rightarrow> hourlyFee existingParking)\<rparr>"

definition updateParking ::
  "string \<Rightarrow> string option \<Rightarrow> int option \<Rightarrow> string option \<Rightarrow> rat option \<Rightarrow> store
     \<Rightarrow> (error + parking) \<times> store" where
  "updateParking c nm tot loc fee s =
     (case findParking c s of
        None \<Rightarrow> (Inl NotFound, s)
      | Some existingParking \<Rightarrow>
          let upd = updateData existingParking nm tot loc fee
          in (Inr (upd existingParking), updateParkingWhere c upd s))"

text \<open>
  Deleting a parking that any entry still references violates the foreign key of the
  \<open>entries\<close> table (\<open>ON DELETE RESTRICT\<close>); the handler's \<open>catch\<close> turns that into a 500.
\<close>

definition deleteParking :: "string \<Rightarrow> store \<Rightarrow> (error + unit) \<times> store" where
  "deleteParking c s =
     (case findParking c s of
        None \<Rightarrow> (Inl NotFound, s)
      | Some existingParking \<Rightarrow>
          if countActive c s > 0 then (Inl Conflict, s)
          else if list_ex (\<lambda>e. parkingCode e = c) (entries s) then (Inl ServerError, s)
          else (Inr (), s\<lparr>parkings := filter (\<lambda>p. code p \<noteq> c) (parkings s)\<rparr>))"

subsection \<open>Entry controller\<close>

text \<open>
  \<open>newId\<close> is the key the store generates for the new row and \<open>now\<close> the value of
  \<open>new Date()\<close>. A key that is already taken makes the insert throw, which the handler's
  \<open>catch\<close> turns into a 500.
\<close>

definition registerEntry ::
  "string \<Rightarrow> string \<Rightarrow> string \<Rightarrow> int \<Rightarrow> store \<Rightarrow> (error + entry \<times> ticket) \<times> store" where
  "registerEntry plate c newId now s =
     (case findParking c s of
        None \<Rightarrow> (Inl NotFound, s)
      | Some p \<Rightarrow>
          if availableSpaces p \<le> 0 then (Inl BadRequest, s)
          else
            (case findActiveEntry plate c s of
               Some activeEntry \<Rightarrow> (Inl Conflict, s)
             | None \<Rightarrow>
                 if findEntry newId s \<noteq> None then (Inl ServerError, s)
                 else
                   let e = \<lparr>entry_id = newId, plateNumber = plate, parkingCode = c,
                            entryDateTime = now, exitDateTime = None, chargedAmount = None\<rparr>;
                       s1 = s\<lparr>entries := entries s @ [e]\<rparr>;
                       s2 = updateParkingWhere c (incrementAvailableSpaces (- 1)) s1;
                       t = \<lparr>ticketNumber = entry_id e, ticket_plateNumber = plateNumber e,
                            ticket_parkingName = name p,
                            ticket_entryDateTime = entryDateTime e,
                            ticket_hourlyFee = hourlyFee p\<rparr>
                   in (Inr (e, t), s2)))"

text \<open>
  The entry is read together with its parking (\<open>include: {parking: true}\<close>); were the
  parking missing, reading its fee would throw and the handler would answer 500.
\<close>

definition registerExit :: "string \<Rightarrow> int \<Rightarrow> store \<Rightarrow> (error + entry \<times> bill) \<times> store" where
  "registerExit i now s =
     (case findEntry i s of
        None \<Rightarrow> (Inl NotFound, s)
      | Some e \<Rightarrow>
          if exitDateTime e \<noteq> None then (Inl Conflict, s)
          else
            (case findParking (parkingCode e) s of
               None \<Rightarrow> (Inl ServerError, s)
             | Some p \<Rightarrow>
                 let hours = durationInHours (entryDateTime e) now;
                     amount = exitCharge (hourlyFee p) (entryDateTime e) now;
                     updatedEntry = exitData now amount e;
                     s1 = updateEntryWhere i (exitData now amount) s;
                     s2 = updateParkingWhere (parkingCode e) (incrementAvailableSpaces 1) s1;
                     b = \<lparr>billNumber = entry_id updatedEntry,
                          bill_plateNumber = plateNumber updatedEntry,
                          bill_parkingName = name p,
                          bill_entryDateTime = entryDateTime updatedEntry,
                          bill_exitDateTime = exitDateTime updatedEntry,
                          bill_durationInHours = hours,
                          bill_hourlyFee = hourlyFee p,
                          totalAmount = chargedAmount updatedEntry\<rparr>
                 in (Inr (updatedEntry, b), s2)))"

subsection \<open>Occupancy report\<close>

text \<open>
  The rate is computed in doubles: the quotient is rounded, then the product. A rate that
  is not a finite number (zero total spaces) is serialised as \<open>null\<close>, here \<open>None\<close>.
\<close>

record occupancy =
  occ_parkingCode :: string
  occ_parkingName :: string
  occ_totalSpaces :: int
  occupiedSpaces :: nat
  occ_availableSpaces :: int
  occupancyRate :: "rat option"

definition getParkingOccupancyReport :: "store \<Rightarrow> occupancy list" where
  "getParkingOccupancyReport s =
     map (\<lambda>p.
        let activeEntries = countActive (code p) s
        in \<lparr>occ_parkingCode = code p, occ_parkingName = name p,
            occ_totalSpaces = totalSpaces p, occupiedSpaces = activeEntries,
            occ_availableSpaces = availableSpaces p,
            occupancyRate =
              (if totalSpaces p = 0 then None
               else toNumber (fl (of_nat activeEntries / of_int (totalSpaces p)) * 100))\<rparr>)
       (parkings s)"

subsection \<open>The API: validated requests\<close>

datatype request =
    PostParking string string int string rat
  | PutParking string "string option" "int option" "string option" "rat option"
  | DeleteParking string
  | PostEntry string string string int
  | PutEntryExit string int

text \<open>
  The route validators (\<open>express-validator\<close> chains in front of each handler). The
  caller is taken to hold a valid token, and the administrator role on the parking
  routes; a body whose fields have the wrong JSON type is either rejected here or makes
  the store client throw before anything is written, so the typed requests above are the
  ones that can change the store.
\<close>

fun validateRequest :: "request \<Rightarrow> bool" where
  "validateRequest (PostParking c nm tot loc fee) =
     (c \<noteq> [] \<and> nm \<noteq> [] \<and> 1 \<le> tot \<and> loc \<noteq> [] \<and> 0 \<le> fee)"
| "validateRequest (PutParking c nm tot loc fee) =
     (c \<noteq> [] \<and> (case tot of None \<Rightarrow> True | Some t \<Rightarrow> 1 \<le> t)
       \<and> (case fee of None \<Rightarrow> True | Some f \<Rightarrow> 0 \<le> f))"
| "validateRequest (DeleteParking c) = (c \<noteq> [])"
| "validateRequest (PostEntry plate c newId now) = (plate \<noteq> [] \<and> c \<noteq> [])"
| "validateRequest (PutEntryExit i now) = (i \<noteq> [])"

fun handler :: "request \<Rightarrow> store \<Rightarrow> store" where
  "handler (PostParking c nm tot loc fee) s = snd (createParking c nm tot loc fee s)"
| "handler (PutParking c nm tot loc fee) s = snd (updateParking c nm tot loc fee s)"
| "handler (DeleteParking c) s = snd (deleteParking c s)"
| "handler (PostEntry plate c newId now) s = snd (registerEntry plate c newId now s)"
| "handler (PutEntryExit i now) s = snd (registerExit i now s)"

definition api :: "request \<Rightarrow> store \<Rightarrow> store" where
  "api r s = (if validateRequest r then handler r s else s)"

fun run :: "request list \<Rightarrow> store \<Rightarrow> store" where
  "run [] s = s"
| "run (r # rs) s = run rs (api r s)"

subsection \<open>Schema constraints and bookkeeping predicates\<close>

text \<open>
  What the schema guarantees of every store state: parking codes are unique, entry keys
  are unique, and every entry references an existing parking (foreign key).
\<close>

definition wf_store :: "store \<Rightarrow> bool" where
  "wf_store s \<longleftrightarrow>
     distinct (map code (parkings s)) \<and> distinct (map entry_id (entries s))
     \<and> (\<forall>e \<in> set (entries s). parkingCode e \<in> set (map code (parkings s)))"

text \<open>An update request that sets the total below the parking's number of open entries.\<close>

fun shrinks :: "request \<Rightarrow> store \<Rightarrow> bool" where
  "shrinks (PutParking c nm (Some t) loc fee) s = (t < int (countActive c s))"
| "shrinks _ s = False"

fun no_shrink :: "request list \<Rightarrow> store \<Rightarrow> bool" where
  "no_shrink [] s = True"
| "no_shrink (r # rs) s = (\<not> shrinks r s \<and> no_shrink rs (api r s))"

text \<open>
  Successive entry registrations \<open>(plate, key, clock)\<close> at one parking, all of which
  succeed; \<open>None\<close> as soon as one of them fails.
\<close>

fun enterAll :: "string \<Rightarrow> (string \<times> string \<times> int) list \<Rightarrow> store \<Rightarrow> store option" where
  "enterAll c [] s = Some s"
| "enterAll c ((plate, newId, now) # xs) s =
     (case registerEntry plate c newId now s of
        (Inr ok, s') \<Rightarrow> enterAll c xs s'
      | (Inl err, s') \<Rightarrow> None)"

text \<open>The ledger: the available count is the total less the parking's open entries.\<close>

definition ledger :: "store \<Rightarrow> bool" where
  "ledger s \<longleftrightarrow>
     (\<forall>p \<in> set (parkings s). availableSpaces p = totalSpaces p - int (countActive (code p) s))"

text \<open>An entry carries a charge exactly when it carries an exit time.\<close>

definition paired :: "store \<Rightarrow> bool" where
  "paired s \<longleftrightarrow> (\<forall>e \<in> set (entries s). (chargedAmount e \<noteq> None) = (exitDateTime e \<noteq> None))"

subsection \<open>Example stores\<close>

text \<open>A parking of two spaces with one car in it.\<close>

definition one_car :: store where
  "one_car = run [PostParking ''P002'' ''North Parking'' 2 ''North District'' 2,
                  PostEntry ''RAB123A'' ''P002'' ''e1'' 0] empty_store"

text \<open>Two cars enter that parking; the first leaves after 65 minutes.\<close>

definition two_visits :: store where
  "two_visits = run [PostParking ''P002'' ''North Parking'' 2 ''North District'' 2,
                     PostEntry ''RAB123A'' ''P002'' ''e1'' 0,
                     PostEntry ''RAC456B'' ''P002'' ''e2'' 60000,
                     PutEntryExit ''e1'' 3900000] empty_store"

text \<open>
  A fresh parking of fifty spaces, fifty cars with distinct plates, and the parking once
  all of them have entered.
\<close>

definition fresh_lot :: store where
  "fresh_lot = snd (createParking ''P002'' ''North Parking'' 50 ''North District'' 2 empty_store)"

definition fifty_cars :: "(string \<times> string \<times> int) list" where
  "fifty_cars =
    [(''RAB001B'', ''e01'', 60000), (''RAC002C'', ''e02'', 120000), (''RAD003A'', ''e03'',
     180000), (''RAE004B'', ''e04'', 240000), (''RAA005C'', ''e05'', 300000), (''RAB006A'',
     ''e06'', 360000), (''RAC007B'', ''e07'', 420000), (''RAD008C'', ''e08'', 480000),
     (''RAE009A'', ''e09'', 540000), (''RAA010B'', ''e10'', 600000), (''RAB011C'', ''e11'',
     660000), (''RAC012A'', ''e12'', 720000), (''RAD013B'', ''e13'', 780000), (''RAE014C'',
     ''e14'', 840000), (''RAA015A'', ''e15'', 900000), (''RAB016B'', ''e16'', 960000),
     (''RAC017C'', ''e17'', 1020000), (''RAD018A'', ''e18'', 1080000), (''RAE019B'', ''e19'',
     1140000), (''RAA020C'', ''e20'', 1200000), (''RAB021A'', ''e21'', 1260000),
     (''RAC022B'', ''e22'', 1320000), (''RAD023C'', ''e23'', 1380000), (''RAE024A'', ''e24'',
     1440000), (''RAA025B'', ''e25'', 1500000), (''RAB026C'', ''e26'', 1560000),
     (''RAC027A'', ''e27'', 1620000), (''RAD028B'', ''e28'', 1680000), (''RAE029C'', ''e29'',
     1740000), (''RAA030A'', ''e30'', 1800000), (''RAB031B'', ''e31'', 1860000),
     (''RAC032C'', ''e32'', 1920000), (''RAD033A'', ''e33'', 1980000), (''RAE034B'', ''e34'',
     2040000), (''RAA035C'', ''e35'', 2100000), (''RAB036A'', ''e36'', 2160000),
     (''RAC037B'', ''e37'', 2220000), (''RAD038C'', ''e38'', 2280000), (''RAE039A'', ''e39'',
     2340000), (''RAA040B'', ''e40'', 2400000), (''RAB041C'', ''e41'', 2460000),
     (''RAC042A'', ''e42'', 2520000), (''RAD043B'', ''e43'', 2580000), (''RAE044C'', ''e44'',
     2640000), (''RAA045A'', ''e45'', 2700000), (''RAB046B'', ''e46'', 2760000),
     (''RAC047C'', ''e47'', 2820000), (''RAD048A'', ''e48'', 2880000), (''RAE049B'', ''e49'',
     2940000), (''RAA050C'', ''e50'', 3000000)]"

definition full_lot :: store where
  "full_lot = the (enterAll ''P002'' fifty_cars fresh_lot)"

text \<open>A parking of a hundred spaces after thirty of those cars have entered it.\<close>

definition thirty_open :: store where
  "thirty_open =
     run (PostParking ''P001'' ''Central Parking'' 100 ''Downtown'' (5/2)
          # map (\<lambda>(plate, newId, now). PostEntry plate ''P001'' newId now) (take 30 fifty_cars))
       empty_store"

text \<open>The same parking after seven of those cars have entered it.\<close>

definition seven_open :: store where
  "seven_open =
     run (PostParking ''P001'' ''Central Parking'' 100 ''Downtown'' (5/2)
          # map (\<lambda>(plate, newId, now). PostEntry plate ''P001'' newId now) (take 7 fifty_cars))
       empty_store"

text \<open>
  One visit during which the fee is raised: the parking is created at fee 2, a car
  enters, the fee is updated to 3, and the car leaves after 65 minutes.
\<close>

definition fee_changed_visit :: "request list" where
  "fee_changed_visit =
     [PostParking ''P002'' ''North Parking'' 2 ''North District'' 2,
      PostEntry ''RAB123A'' ''P002'' ''e1'' 0,
      PutParking ''P002'' None None None (Some 3),
      PutEntryExit ''e1'' 3900000]"

section \<open>Properties of the fee calculation\<close>

subsection \<open>Rounding to a double\<close>

lemma pow2_le_of_int: "2 ^ k \<le> (n::int) \<Longrightarrow> (2::rat) ^ k \<le> of_int n"
  by (metis of_int_le_iff of_int_numeral of_int_power)

lemma of_int_le_pow2: "(n::int) \<le> 2 ^ k \<Longrightarrow> (of_int n :: rat) \<le> 2 ^ k"
  by (metis of_int_le_iff of_int_numeral of_int_power)

lemma exponent_bounds:
  assumes "x \<noteq> 0"
  shows "2 powi exponent x \<le> \<bar>x\<bar>" and "\<bar>x\<bar> < 2 powi (exponent x + 1)"
proof -
  have "2 powi exponent x \<le> \<bar>x\<bar> \<and> \<bar>x\<bar> < 2 powi (exponent x + 1)"
  proof (cases "1 \<le> \<bar>x\<bar>")
    case True
    define n where "n = \<lfloor>\<bar>x\<bar>\<rfloor>"
    have n: "1 \<le> n" using True by (simp add: n_def le_floor_iff)
    then have b: "1 \<le> bitlen n" using bitlen_eq_zero_iff [of n] bitlen_nonneg [of n]
      by (smt (verit))
    from bitlen_bounds [of n] n have lo: "2 ^ nat (bitlen n - 1) \<le> n" and hi: "n < 2 ^ nat (bitlen n)"
      by simp_all
    have e: "exponent x = bitlen n - 1" using True by (simp add: exponent_def n_def)
    have "(2::rat) ^ nat (bitlen n - 1) \<le> of_int n" using lo by (rule pow2_le_of_int)
    moreover have "of_int n \<le> \<bar>x\<bar>" by (simp add: n_def)
    ultimately have "(2::rat) ^ nat (bitlen n - 1) \<le> \<bar>x\<bar>" by linarith
    then have 1: "2 powi exponent x \<le> \<bar>x\<bar>"
      using b by (simp add: e power_int_def)
    have "n + 1 \<le> 2 ^ nat (bitlen n)" using hi by simp
    then have "(of_int (n + 1) :: rat) \<le> 2 ^ nat (bitlen n)" by (rule of_int_le_pow2)
    moreover have "\<bar>x\<bar> < of_int (n + 1)" unfolding n_def by linarith
    ultimately have "\<bar>x\<bar> < (2::rat) ^ nat (bitlen n)" by linarith
    then have 2: "\<bar>x\<bar> < 2 powi (exponent x + 1)"
      using b by (simp add: e power_int_def)
    from 1 2 show ?thesis ..
  next
    case False
    define y where "y = 1 / \<bar>x\<bar>"
    have xpos: "0 < \<bar>x\<bar>" using assms by simp
    have y1: "1 < y" using False xpos by (simp add: y_def)
    define c where "c = \<lceil>y\<rceil>"
    have c2: "2 \<le> c" using y1 unfolding c_def by linarith
    define k where "k = bitlen (c - 1)"
    have k1: "1 \<le> k" using c2 bitlen_eq_zero_iff [of "c - 1"] bitlen_nonneg [of "c - 1"]
      unfolding k_def by (smt (verit))
    from bitlen_bounds [of "c - 1"] c2
    have lo: "2 ^ nat (k - 1) \<le> c - 1" and hi: "c - 1 < 2 ^ nat k"
      by (simp_all add: k_def)
    have e: "exponent x = - k" using False by (simp add: exponent_def k_def c_def y_def)
    have "c \<le> 2 ^ nat k" using hi by simp
    then have "(of_int c :: rat) \<le> 2 ^ nat k" by (rule of_int_le_pow2)
    moreover have "y \<le> of_int c" by (simp add: c_def)
    ultimately have yk: "y \<le> 2 ^ nat k" by linarith
    have "(2::rat) ^ nat (k - 1) \<le> of_int (c - 1)" using lo by (rule pow2_le_of_int)
    moreover have "of_int (c - 1) < y" unfolding c_def by linarith
    ultimately have yk1: "2 ^ nat (k - 1) < y" by linarith
    have p: "(0::rat) < 2 ^ nat k" "(0::rat) < 2 ^ nat (k - 1)" by simp_all
    have 1: "2 powi exponent x \<le> \<bar>x\<bar>"
    proof -
      have "1 / 2 ^ nat k \<le> 1 / y" using yk y1 by (simp add: frac_le)
      then show ?thesis using k1 xpos by (simp add: e power_int_def y_def field_simps)
    qed
    have 2: "\<bar>x\<bar> < 2 powi (exponent x + 1)"
    proof -
      have "1 / y < 1 / 2 ^ nat (k - 1)" using yk1 p by (simp add: frac_less2)
      moreover have "2 powi (- k + 1) = 1 / (2::rat) ^ nat (k - 1)"
      proof (cases "k = 1")
        case True
        then show ?thesis by simp
      next
        case False
        with k1 have "- k + 1 < 0" by simp
        moreover have "nat (- (- k + 1)) = nat (k - 1)" by simp
        ultimately show ?thesis by (simp add: power_int_def field_simps)
      qed
      ultimately show ?thesis using xpos by (simp add: e y_def)
    qed
    from 1 2 show ?thesis ..
  qed
  then show "2 powi exponent x \<le> \<bar>x\<bar>" and "\<bar>x\<bar> < 2 powi (exponent x + 1)" by simp_all
qed

lemma round_half_even_error: "\<bar>of_int (round_half_even q) - q\<bar> \<le> 1 / 2"
proof -
  have *: "\<bar>of_int (if q - of_int f < 1/2 then f else if 1/2 < q - of_int f then f + 1
       else if even f then f else f + 1) - q\<bar> \<le> 1 / 2"
    if "of_int f \<le> q" "q < of_int f + 1" for f :: int
    using that by (auto simp: abs_if)
  have "of_int \<lfloor>q\<rfloor> \<le> q" "q < of_int \<lfloor>q\<rfloor> + 1" by linarith+
  then show ?thesis
    unfolding round_half_even_def Let_def by (rule *)
qed


lemma round_half_even_nonneg: "0 \<le> q \<Longrightarrow> 0 \<le> round_half_even q"
  by (auto simp: round_half_even_def Let_def)

lemma fl_abs_error:
  assumes "x \<noteq> 0"
  shows "\<bar>fl x - x\<bar> \<le> 2 powi max (exponent x - 52) (- 1074) / 2"
proof -
  define u :: rat where "u = 2 powi max (exponent x - 52) (- 1074)"
  have u: "0 < u" by (simp add: u_def)
  have "\<bar>of_int (round_half_even (x / u)) - x / u\<bar> \<le> 1 / 2"
    by (rule round_half_even_error)
  then have "\<bar>of_int (round_half_even (x / u)) - x / u\<bar> * u \<le> 1 / 2 * u"
    using u by (simp only: mult_le_cancel_right_pos)
  moreover have "\<bar>of_int (round_half_even (x / u)) - x / u\<bar> * u
      = \<bar>of_int (round_half_even (x / u)) * u - x\<bar>"
  proof -
    have "\<bar>of_int (round_half_even (x / u)) - x / u\<bar> * u
        = \<bar>(of_int (round_half_even (x / u)) - x / u) * u\<bar>"
      using u by (simp add: abs_mult)
    also have "(of_int (round_half_even (x / u)) - x / u) * u
        = of_int (round_half_even (x / u)) * u - x"
      using u by (simp add: field_simps)
    finally show ?thesis .
  qed
  ultimately have "\<bar>of_int (round_half_even (x / u)) * u - x\<bar> \<le> u / 2" by simp
  then show ?thesis
    using assms by (simp add: fl_def Let_def u_def)
qed

lemma exponent_ge:
  assumes "2 powi k \<le> \<bar>x\<bar>" shows "k \<le> exponent x"
proof (rule ccontr)
  assume "\<not> k \<le> exponent x"
  then have "exponent x + 1 \<le> k" by simp
  then have "(2::rat) powi (exponent x + 1) \<le> 2 powi k"
    by (simp add: power_int_increasing)
  moreover have "(0::rat) < 2 powi k" by simp
  with assms have "0 < \<bar>x\<bar>" by linarith
  then have "x \<noteq> 0" by simp
  ultimately show False
    using exponent_bounds(2) [of x] assms by linarith
qed


lemma fl_rel_error:
  assumes "2 powi (- 1022) \<le> \<bar>x\<bar>"
  shows "\<bar>fl x - x\<bar> \<le> \<bar>x\<bar> / 2 ^ 53"
proof -
  have "(0::rat) < 2 powi (- 1022)" by simp
  with assms have "0 < \<bar>x\<bar>" by linarith
  then have nz: "x \<noteq> 0" by simp
  have e: "- 1022 \<le> exponent x" using assms by (rule exponent_ge)
  then have m: "max (exponent x - 52) (- 1074) = exponent x - 52" by simp
  have "(2::rat) powi (exponent x - 52) = 2 powi exponent x / 2 ^ 52"
    by (simp add: power_int_diff)
  then have "(2::rat) powi (exponent x - 52) / 2 = 2 powi exponent x / 2 ^ 53"
    by simp
  also have "\<dots> \<le> \<bar>x\<bar> / 2 ^ 53"
    using exponent_bounds(1) [OF nz] by (simp add: divide_right_mono)
  finally show ?thesis
    using fl_abs_error [OF nz] unfolding m by linarith
qed


lemma fl_nonneg: "0 \<le> x \<Longrightarrow> 0 \<le> fl x"
  by (simp add: fl_def Let_def round_half_even_nonneg)

lemma normal_threshold: "(2::rat) powi (- 1022) \<le> 1 / 2 ^ 40"
proof -
  have "(2::rat) powi (- 1022) \<le> 2 powi (- 40)"
    by (rule power_int_increasing) simp_all
  also have "(2::rat) powi (- 40) = 1 / 2 ^ 40"
    by (simp add: power_int_def power_one_over)
  finally show ?thesis .
qed





lemma fl_0: "fl 0 = 0"
  by (simp add: fl_def)

lemma toNumber_0: "toNumber 0 = Some 0"
  by (simp add: toNumber_def fl_def)

lemma toNumber_rel_error:
  assumes "2 powi (- 1022) \<le> x" and "x < 2 ^ 1023"
  shows "\<exists>c. toNumber x = Some c \<and> \<bar>c - x\<bar> \<le> x / 2 ^ 53"
proof -
  have "(0::rat) < 2 powi (- 1022)" by simp
  with assms have pos: "0 < x" by linarith
  have "2 powi (- 1022) \<le> \<bar>x\<bar>" using assms pos by simp
  then have "\<bar>fl x - x\<bar> \<le> \<bar>x\<bar> / 2 ^ 53" by (rule fl_rel_error)
  then have e: "\<bar>fl x - x\<bar> \<le> x / 2 ^ 53" using pos by simp
  have "x / 2 ^ 53 \<le> x" using pos by (simp add: field_simps)
  with e have "fl x \<le> 2 * x" by linarith
  moreover have "2 * x < 2 * 2 ^ 1023" using assms(2) by linarith
  moreover have "(2::rat) * 2 ^ 1023 = 2 ^ 1024" by simp
  ultimately have "fl x < 2 ^ 1024" by linarith
  moreover have "0 \<le> fl x" using pos by (simp add: fl_nonneg)
  ultimately have "\<bar>fl x\<bar> < 2 ^ 1024" by simp
  then have "toNumber x = Some (fl x)" by (simp add: toNumber_def Let_def)
  with e show ?thesis by simp
qed



subsection \<open>Hours charged\<close>

lemma durationInHours_div: "durationInHours en ex = - ((en - ex) div 3600000)"
  using ceiling_divide_eq_div [of "ex - en" 3600000, where ?'a = rat]
  by (simp add: durationInHours_def)

lemma durationInHours_bounds:
  "(durationInHours en ex - 1) * 3600000 < ex - en \<and> ex - en \<le> durationInHours en ex * 3600000"
  unfolding durationInHours_div by (simp; linarith?)


lemma durationInHours_pos: "en < ex \<Longrightarrow> 1 \<le> durationInHours en ex"
  using durationInHours_bounds [of en ex] by (simp; linarith?)










subsection \<open>Guards\<close>

lemma calculateParkingFee_nonneg:
  "calculateParkingFee fee enD exD now = Some c \<Longrightarrow> 0 \<le> c"
proof -
  have *: "0 \<le> c"
    if "toNumber (of_int \<lceil>fl (fl (fl (of_int (b - a)) / (1000 * 60)) / 60)\<rceil> * f) = Some c"
      "0 < f" "a \<le> b" for a b :: int and f :: rat
  proof -
    have "(0::rat) \<le> of_int (b - a)" using that(3) by simp
    then have "0 \<le> fl (of_int (b - a))" by (rule fl_nonneg)
    then have "0 \<le> fl (of_int (b - a)) / (1000 * 60)" by simp
    then have "0 \<le> fl (fl (of_int (b - a)) / (1000 * 60))" by (rule fl_nonneg)
    then have "0 \<le> fl (fl (of_int (b - a)) / (1000 * 60)) / 60" by simp
    then have "0 \<le> fl (fl (fl (of_int (b - a)) / (1000 * 60)) / 60)" by (rule fl_nonneg)
    then have "0 \<le> \<lceil>fl (fl (fl (of_int (b - a)) / (1000 * 60)) / 60)\<rceil>" by simp
    then have "0 \<le> of_int \<lceil>fl (fl (fl (of_int (b - a)) / (1000 * 60)) / 60)\<rceil> * f"
      using that(2) by simp
    then have "0 \<le> fl (of_int \<lceil>fl (fl (fl (of_int (b - a)) / (1000 * 60)) / 60)\<rceil> * f)"
      by (rule fl_nonneg)
    with that(1) show ?thesis
      by (simp add: toNumber_def Let_def split: if_splits)
  qed
  assume "calculateParkingFee fee enD exD now = Some c"
  then show ?thesis
    using * [of _ _ _]
    by (auto simp: calculateParkingFee_def Let_def not_less not_le
        split: option.splits if_splits date_input.splits)
qed

text \<open>
  The dashboard's \<open>calculateParkingFee\<close> returns zero whenever the hourly fee is absent or
  not positive, the entry instant is absent, unparseable or out of range, or the computed
  exit instant (the given one, or the clock when none is given) is invalid or strictly
  precedes the entry instant; its result is never negative.
\<close>

lemma calculateParkingFee_guards:
  "calculateParkingFee None enD exD now = Some 0
   \<and> (f \<le> 0 \<longrightarrow> calculateParkingFee (Some f) enD exD now = Some 0)
   \<and> calculateParkingFee fee NoDate exD now = Some 0
   \<and> calculateParkingFee fee BadDate exD now = Some 0
   \<and> calculateParkingFee fee enD BadDate now = Some 0
   \<and> (\<not> validTime en \<longrightarrow> calculateParkingFee fee (DateAt en) exD now = Some 0)
   \<and> (\<not> validTime ex \<longrightarrow> calculateParkingFee fee enD (DateAt ex) now = Some 0)
   \<and> (ex < en \<longrightarrow> calculateParkingFee fee (DateAt en) (DateAt ex) now = Some 0)
   \<and> (now < en \<longrightarrow> calculateParkingFee fee (DateAt en) NoDate now = Some 0)
   \<and> (calculateParkingFee fee enD exD now = Some c \<longrightarrow> 0 \<le> c)"
  using calculateParkingFee_nonneg [of fee enD exD now c]
  by (auto simp: calculateParkingFee_def split: option.splits date_input.splits)

text \<open>
  C3. The fee calculation is meant to give zero, never a negative charge, when the exit
  instant precedes the entry instant, and the dashboard's \<open>calculateParkingFee\<close> does so;
  the exit handler has no such guard. A car enters when the server clock reads two
  hours; the exit is registered when the clock reads zero: every request is valid, the
  handler computes minus two hours at fee 2.5 and stores and bills a charge of \<open>-5\<close>,
  where \<open>calculateParkingFee\<close> gives 0 on the same fee and instants.
\<close>

theorem registerExit_negative_charge_when_exit_precedes_entry:
  "list_all validateRequest
     [PostParking ''P001'' ''Central Parking'' 100 ''Downtown'' (5/2),
      PostEntry ''RAB123A'' ''P001'' ''e1'' 7200000,
      PutEntryExit ''e1'' 0]
   \<and> map chargedAmount (entries (run
     [PostParking ''P001'' ''Central Parking'' 100 ''Downtown'' (5/2),
      PostEntry ''RAB123A'' ''P001'' ''e1'' 7200000,
      PutEntryExit ''e1'' 0] empty_store)) = [Some (- 5)]
   \<and> jsDurationInHours 7200000 0 = - 2
   \<and> jsChargedAmount (5/2) 7200000 0 = Some (- 5)
   \<and> decimal2 (- 5) = - 5
   \<and> exitCharge (5/2) 7200000 0 = - 5
   \<and> calculateParkingFee (Some (5/2)) (DateAt 7200000) (DateAt 0) 0 = Some 0"
  by code_simp


section \<open>Properties of the entry and exit handlers\<close>

lemma findParking_None: "findParking c s = None \<longleftrightarrow> (\<forall>p \<in> set (parkings s). code p \<noteq> c)"
  by (auto simp: findParking_def find_None_iff)

lemma findParking_SomeD: "findParking c s = Some p \<Longrightarrow> p \<in> set (parkings s) \<and> code p = c"
  by (auto simp: findParking_def find_Some_iff)

lemma find_distinct_key:
  "distinct (map k xs) \<Longrightarrow> x \<in> set xs \<Longrightarrow> find (\<lambda>y. k y = k x) xs = Some x"
proof (induction xs)
  case Nil
  then show ?case by simp
next
  case (Cons a xs)
  then show ?case by force
qed

lemma findParking_wf:
  "wf_store s \<Longrightarrow> p \<in> set (parkings s) \<Longrightarrow> findParking (code p) s = Some p"
  by (simp add: wf_store_def findParking_def find_distinct_key)

lemma findEntry_None: "findEntry i s = None \<longleftrightarrow> (\<forall>e \<in> set (entries s). entry_id e \<noteq> i)"
  by (auto simp: findEntry_def find_None_iff)

lemma findEntry_SomeD: "findEntry i s = Some e \<Longrightarrow> e \<in> set (entries s) \<and> entry_id e = i"
  by (auto simp: findEntry_def find_Some_iff)

lemma findEntry_wf:
  "wf_store s \<Longrightarrow> e \<in> set (entries s) \<Longrightarrow> findEntry (entry_id e) s = Some e"
  by (simp add: wf_store_def findEntry_def find_distinct_key)

lemma findActiveEntry_None:
  "findActiveEntry plate c s = None \<longleftrightarrow>
     (\<forall>e \<in> set (entries s). \<not> (plateNumber e = plate \<and> parkingCode e = c \<and> exitDateTime e = None))"
  by (auto simp: findActiveEntry_def find_None_iff)

lemma registerEntry_failure_unchanged:
  "fst (registerEntry plate c newId now s) = Inl err \<Longrightarrow> snd (registerEntry plate c newId now s) = s"
  by (auto simp: registerEntry_def Let_def split: option.splits if_splits)

text \<open>
  C4. For every store state, \<open>registerEntry\<close> answers not found (404) when no parking has
  the given code, bad request for lack of capacity (400) when the parking has no
  available space, and conflict (409) when the parking has capacity but an entry with
  the same plate and parking code is still open; whenever it fails, the store it leaves
  is the store it found: no entry is created and no count is decremented.
\<close>

theorem registerEntry_failures:
  "((\<forall>p \<in> set (parkings s). code p \<noteq> c) \<longrightarrow>
       registerEntry plate c newId now s = (Inl NotFound, s))
   \<and> (wf_store s \<and> p \<in> set (parkings s) \<and> code p = c \<and> availableSpaces p = 0 \<longrightarrow>
       registerEntry plate c newId now s = (Inl BadRequest, s))
   \<and> (wf_store s \<and> p \<in> set (parkings s) \<and> code p = c \<and> 0 < availableSpaces p
        \<and> e \<in> set (entries s) \<and> plateNumber e = plate \<and> parkingCode e = c
        \<and> exitDateTime e = None \<longrightarrow>
       registerEntry plate c newId now s = (Inl Conflict, s))
   \<and> (fst (registerEntry plate c newId now s) = Inl err \<longrightarrow>
       snd (registerEntry plate c newId now s) = s)
   \<and> status NotFound = 404 \<and> status BadRequest = 400 \<and> status Conflict = 409"
proof -
  have nf: "registerEntry plate c newId now s = (Inl NotFound, s)"
    if "\<forall>p \<in> set (parkings s). code p \<noteq> c"
    using that findParking_None [of c s] by (simp add: registerEntry_def)
  have full: "registerEntry plate c newId now s = (Inl BadRequest, s)"
    if "wf_store s" "p \<in> set (parkings s)" "code p = c" "availableSpaces p = 0"
    using that findParking_wf [of s p] by (simp add: registerEntry_def)
  have dup: "registerEntry plate c newId now s = (Inl Conflict, s)"
    if "wf_store s" "p \<in> set (parkings s)" "code p = c" "0 < availableSpaces p"
       "e \<in> set (entries s)" "plateNumber e = plate" "parkingCode e = c" "exitDateTime e = None"
  proof -
    have "findActiveEntry plate c s \<noteq> None"
      using that findActiveEntry_None [of plate c s] by blast
    then show ?thesis
      using that findParking_wf [of s p] by (auto simp: registerEntry_def)
  qed
  show ?thesis
    using nf full dup registerEntry_failure_unchanged [of plate c newId now s err]
    by simp
qed

theorem registerEntry_failures_witness:
  "registerEntry ''RAB123A'' ''P404'' ''e3'' 5
      (run [PostParking ''P001'' ''Central Parking'' 1 ''Downtown'' (5/2),
            PostParking ''P002'' ''North Parking'' 2 ''North District'' 2,
            PostEntry ''RAB123A'' ''P001'' ''e1'' 0,
            PostEntry ''RAB123A'' ''P002'' ''e2'' 1] empty_store)
    = (Inl NotFound,
       run [PostParking ''P001'' ''Central Parking'' 1 ''Downtown'' (5/2),
            PostParking ''P002'' ''North Parking'' 2 ''North District'' 2,
            PostEntry ''RAB123A'' ''P001'' ''e1'' 0,
            PostEntry ''RAB123A'' ''P002'' ''e2'' 1] empty_store)
   \<and> fst (registerEntry ''RAC456B'' ''P001'' ''e3'' 5
      (run [PostParking ''P001'' ''Central Parking'' 1 ''Downtown'' (5/2),
            PostParking ''P002'' ''North Parking'' 2 ''North District'' 2,
            PostEntry ''RAB123A'' ''P001'' ''e1'' 0,
            PostEntry ''RAB123A'' ''P002'' ''e2'' 1] empty_store)) = Inl BadRequest
   \<and> fst (registerEntry ''RAB123A'' ''P002'' ''e3'' 5
      (run [PostParking ''P001'' ''Central Parking'' 1 ''Downtown'' (5/2),
            PostParking ''P002'' ''North Parking'' 2 ''North District'' 2,
            PostEntry ''RAB123A'' ''P001'' ''e1'' 0,
            PostEntry ''RAB123A'' ''P002'' ''e2'' 1] empty_store)) = Inl Conflict"
proof -
  let ?s = "run [PostParking ''P001'' ''Central Parking'' 1 ''Downtown'' (5/2),
            PostParking ''P002'' ''North Parking'' 2 ''North District'' 2,
            PostEntry ''RAB123A'' ''P001'' ''e1'' 0,
            PostEntry ''RAB123A'' ''P002'' ''e2'' 1] empty_store"
  let ?p1 = "\<lparr>code = ''P001'', name = ''Central Parking'', totalSpaces = 1, availableSpaces = 0,
              location = ''Downtown'', hourlyFee = 5/2\<rparr>"
  let ?p2 = "\<lparr>code = ''P002'', name = ''North Parking'', totalSpaces = 2, availableSpaces = 1,
              location = ''North District'', hourlyFee = 2\<rparr>"
  let ?e2 = "\<lparr>entry_id = ''e2'', plateNumber = ''RAB123A'', parkingCode = ''P002'',
              entryDateTime = 1, exitDateTime = None, chargedAmount = None\<rparr>"
  have wf: "wf_store ?s" by code_simp
  have ps: "parkings ?s = [?p1, ?p2]" by code_simp
  have es: "?e2 \<in> set (entries ?s)" by code_simp
  have a: "\<forall>p \<in> set (parkings ?s). code p \<noteq> ''P404''" by code_simp
  have b: "wf_store ?s \<and> ?p1 \<in> set (parkings ?s) \<and> code ?p1 = ''P001'' \<and> availableSpaces ?p1 = 0"
    using wf ps by simp
  have c: "wf_store ?s \<and> ?p2 \<in> set (parkings ?s) \<and> code ?p2 = ''P002'' \<and> 0 < availableSpaces ?p2
      \<and> ?e2 \<in> set (entries ?s) \<and> plateNumber ?e2 = ''RAB123A'' \<and> parkingCode ?e2 = ''P002''
      \<and> exitDateTime ?e2 = None"
    using wf ps es by simp
  show ?thesis
    using registerEntry_failures [where s = ?s and c = "''P404''" and plate = "''RAB123A''"
        and newId = "''e3''" and now = 5] a
      registerEntry_failures [where s = ?s and c = "''P001''" and plate = "''RAC456B''"
        and newId = "''e3''" and now = 5 and p = ?p1] b
      registerEntry_failures [where s = ?s and c = "''P002''" and plate = "''RAB123A''"
        and newId = "''e3''" and now = 5 and p = ?p2 and e = ?e2] c
    by simp
qed

section \<open>Store invariants\<close>

subsection \<open>What each handler does to the store\<close>

lemma isl_or_isr: "(\<exists>err. x = Inl err) \<or> (\<exists>ok. x = Inr ok)"
  by (cases x) auto

lemma registerEntry_fail:
  "registerEntry plate c newId now s = (Inl err, s') \<Longrightarrow> s' = s"
  by (auto simp: registerEntry_def Let_def split: option.splits if_splits)

lemma registerEntry_ok:
  assumes "registerEntry plate c newId now s = (Inr (e, t), s')"
  obtains p where "findParking c s = Some p" and "0 < availableSpaces p"
    and "ticket_hourlyFee t = hourlyFee p"
    and "findActiveEntry plate c s = None"
    and "findEntry newId s = None"
    and "e = \<lparr>entry_id = newId, plateNumber = plate, parkingCode = c, entryDateTime = now,
              exitDateTime = None, chargedAmount = None\<rparr>"
    and "entries s' = entries s @ [e]"
    and "parkings s' =
           map (\<lambda>q. if code q = c then incrementAvailableSpaces (- 1) q else q) (parkings s)"
  using assms
  by (auto simp: registerEntry_def Let_def updateParkingWhere_def split: option.splits if_splits)

lemma registerEntry_succeeds:
  assumes "findParking c s = Some p" "0 < availableSpaces p"
    "findActiveEntry plate c s = None" "findEntry newId s = None"
  shows "\<exists>e t s'. registerEntry plate c newId now s = (Inr (e, t), s')"
  using assms by (simp add: registerEntry_def Let_def)

lemma registerExit_fail:
  "registerExit i now s = (Inl err, s') \<Longrightarrow> s' = s"
  by (auto simp: registerExit_def Let_def split: option.splits if_splits)

lemma registerExit_ok:
  assumes "registerExit i now s = (Inr (e', b), s')"
  obtains e p where "findEntry i s = Some e" and "exitDateTime e = None"
    and "findParking (parkingCode e) s = Some p"
    and "e' = exitData now (exitCharge (hourlyFee p) (entryDateTime e) now) e"
    and "entries s' =
           map (\<lambda>x. if entry_id x = i
                    then exitData now (exitCharge (hourlyFee p) (entryDateTime e) now) x else x)
             (entries s)"
    and "parkings s' =
           map (\<lambda>q. if code q = parkingCode e then incrementAvailableSpaces 1 q else q)
             (parkings s)"
    and "totalAmount b = Some (exitCharge (hourlyFee p) (entryDateTime e) now)"
    and "bill_hourlyFee b = hourlyFee p"
    and "bill_durationInHours b = durationInHours (entryDateTime e) now"
  using assms
  by (auto simp: registerExit_def Let_def updateParkingWhere_def updateEntryWhere_def exitData_def
      split: option.splits if_splits)

lemma registerExit_succeeds:
  assumes "findEntry i s = Some e" "exitDateTime e = None" "findParking (parkingCode e) s = Some p"
  shows "\<exists>e' b s'. registerExit i now s = (Inr (e', b), s')"
  using assms by (simp add: registerExit_def Let_def)

lemma createParking_fail:
  "createParking c nm tot loc fee s = (Inl err, s') \<Longrightarrow> s' = s"
  by (auto simp: createParking_def Let_def split: option.splits)

lemma createParking_ok:
  assumes "createParking c nm tot loc fee s = (Inr p, s')"
  shows "findParking c s = None"
    and "p = \<lparr>code = c, name = nm, totalSpaces = tot, availableSpaces = tot,
             location = loc, hourlyFee = fee\<rparr>"
    and "parkings s' = parkings s @ [p]" and "entries s' = entries s"
  using assms by (auto simp: createParking_def Let_def split: option.splits)

lemma updateParking_fail:
  "updateParking c nm tot loc fee s = (Inl err, s') \<Longrightarrow> s' = s"
  by (auto simp: updateParking_def Let_def split: option.splits)

lemma updateParking_ok:
  assumes "updateParking c nm tot loc fee s = (Inr p', s')"
  obtains p where "findParking c s = Some p" and "p' = updateData p nm tot loc fee p"
    and "parkings s' =
           map (\<lambda>q. if code q = c then updateData p nm tot loc fee q else q) (parkings s)"
    and "entries s' = entries s"
  using assms
  by (auto simp: updateParking_def Let_def updateParkingWhere_def split: option.splits)

lemma updateData_simps:
  "code (updateData ex nm tot loc fee q) = code q"
  "availableSpaces (updateData ex nm tot loc fee q)
     = availableSpaces q + availableSpacesAdjustment ex tot"
  "totalSpaces (updateData ex nm tot loc fee q)
     = (case tot of Some t \<Rightarrow> if t \<noteq> 0 then t else totalSpaces ex | None \<Rightarrow> totalSpaces ex)"
  "hourlyFee (updateData ex nm tot loc fee q)
     = (case fee of Some f \<Rightarrow> if f \<noteq> 0 then f else hourlyFee ex | None \<Rightarrow> hourlyFee ex)"
  by (simp_all add: updateData_def incrementAvailableSpaces_def)

lemma incrementAvailableSpaces_simps:
  "code (incrementAvailableSpaces k q) = code q"
  "totalSpaces (incrementAvailableSpaces k q) = totalSpaces q"
  "availableSpaces (incrementAvailableSpaces k q) = availableSpaces q + k"
  "hourlyFee (incrementAvailableSpaces k q) = hourlyFee q"
  by (simp_all add: incrementAvailableSpaces_def)

lemma exitData_simps:
  "entry_id (exitData now a x) = entry_id x"
  "parkingCode (exitData now a x) = parkingCode x"
  "plateNumber (exitData now a x) = plateNumber x"
  "entryDateTime (exitData now a x) = entryDateTime x"
  "exitDateTime (exitData now a x) = Some now"
  "chargedAmount (exitData now a x) = Some a"
  by (simp_all add: exitData_def)

lemma deleteParking_fail:
  "deleteParking c s = (Inl err, s') \<Longrightarrow> s' = s"
  by (auto simp: deleteParking_def Let_def split: option.splits if_splits)

lemma deleteParking_ok:
  assumes "deleteParking c s = (Inr u, s')"
  shows "entries s' = entries s" and "parkings s' = filter (\<lambda>p. code p \<noteq> c) (parkings s)"
    and "\<forall>e \<in> set (entries s). parkingCode e \<noteq> c"
  using assms
  by (auto simp: deleteParking_def Let_def list_ex_iff split: option.splits if_splits)

subsection \<open>List facts behind the bookkeeping\<close>

lemma map_upd_other:
  "\<forall>y \<in> set xs. k y \<noteq> a \<Longrightarrow> map (\<lambda>y. if k y = a then f y else y) xs = xs"
  by (induction xs) auto

lemma count_after_keyed_update:
  assumes "distinct (map k xs)" and "x \<in> set xs"
  shows "length (filter P (map (\<lambda>y. if k y = k x then f y else y) xs)) + (if P x then 1 else 0)
       = length (filter P xs) + (if P (f x) then 1 else 0)"
  using assms
proof (induction xs)
  case Nil
  then show ?case by simp
next
  case (Cons a xs)
  from Cons.prems have d: "distinct (map k xs)" and na: "k a \<notin> k ` set xs"
    by simp_all
  show ?case
  proof (cases "a = x")
    case True
    from na True have "\<forall>y \<in> set xs. k y \<noteq> k x" by (auto simp: image_iff)
    then have "map (\<lambda>y. if k y = k x then f y else y) xs = xs"
      by (rule map_upd_other)
    with True show ?thesis by simp
  next
    case False
    with Cons.prems have x: "x \<in> set xs" by simp
    with na have "k a \<noteq> k x" by (auto simp: image_iff)
    with Cons.IH [OF d x] show ?thesis by simp
  qed
qed

lemma map_code_upd:
  "(\<And>q. code (f q) = code q) \<Longrightarrow> map code (map (\<lambda>q. if code q = c then f q else q) ps) = map code ps"
  by (induction ps) auto

lemma map_id_upd:
  "(\<And>x. entry_id (f x) = entry_id x) \<Longrightarrow>
   map entry_id (map (\<lambda>x. if entry_id x = i then f x else x) es) = map entry_id es"
  by (induction es) auto

lemma find_upd:
  "(\<And>q. code (f q) = code q) \<Longrightarrow>
   find (\<lambda>p. code p = c') (map (\<lambda>q. if code q = c then f q else q) ps)
     = (if c' = c then map_option f (find (\<lambda>p. code p = c') ps) else find (\<lambda>p. code p = c') ps)"
  by (induction ps) auto

lemma find_append_new:
  "find P xs = Some x \<Longrightarrow> find P (xs @ ys) = Some x"
  by (induction xs) (auto split: if_splits)

lemma find_filter_other:
  "find (\<lambda>p. code p = c') (filter (\<lambda>p. code p \<noteq> c) ps)
     = (if c' = c then None else find (\<lambda>p. code p = c') ps)"
  by (induction ps) auto

subsection \<open>The schema constraints are preserved\<close>

lemma wf_registerEntry:
  assumes "wf_store s" shows "wf_store (snd (registerEntry plate c newId now s))"
proof (cases "fst (registerEntry plate c newId now s)")
  case (Inl err)
  then show ?thesis
    using assms registerEntry_fail [of plate c newId now s err] by (metis prod.collapse)
next
  case (Inr ok)
  obtain e t where ok: "ok = (e, t)" by (cases ok)
  let ?s' = "snd (registerEntry plate c newId now s)"
  have r: "registerEntry plate c newId now s = (Inr (e, t), ?s')"
    using Inr ok by (metis prod.collapse)
  from r obtain p where p: "findParking c s = Some p" and "0 < availableSpaces p"
    and "ticket_hourlyFee t = hourlyFee p"
    and "findActiveEntry plate c s = None"
    and fresh: "findEntry newId s = None"
    and e: "e = \<lparr>entry_id = newId, plateNumber = plate, parkingCode = c, entryDateTime = now,
              exitDateTime = None, chargedAmount = None\<rparr>"
    and es: "entries ?s' = entries s @ [e]"
    and ps: "parkings ?s' =
           map (\<lambda>q. if code q = c then incrementAvailableSpaces (- 1) q else q) (parkings s)"
    by (rule registerEntry_ok)
  have c_in: "c \<in> set (map code (parkings s))"
    using findParking_SomeD [OF p] by force
  have fresh': "newId \<notin> set (map entry_id (entries s))"
    using fresh findEntry_None [of newId s] by auto
  have codes: "map code (parkings ?s') = map code (parkings s)"
    unfolding ps by (rule map_code_upd) (rule incrementAvailableSpaces_simps)
  show ?thesis
    using assms c_in fresh'
    unfolding wf_store_def codes es by (auto simp: e)
qed

lemma wf_registerExit:
  assumes "wf_store s" shows "wf_store (snd (registerExit i now s))"
proof (cases "fst (registerExit i now s)")
  case (Inl err)
  then show ?thesis
    using assms registerExit_fail [of i now s err] by (metis prod.collapse)
next
  case (Inr ok)
  obtain e' b where ok: "ok = (e', b)" by (cases ok)
  let ?s' = "snd (registerExit i now s)"
  have r: "registerExit i now s = (Inr (e', b), ?s')"
    using Inr ok by (metis prod.collapse)
  from r obtain e p where "findEntry i s = Some e" and "exitDateTime e = None"
    and "findParking (parkingCode e) s = Some p"
    and "e' = exitData now (exitCharge (hourlyFee p) (entryDateTime e) now) e"
    and es: "entries ?s' =
           map (\<lambda>x. if entry_id x = i
                    then exitData now (exitCharge (hourlyFee p) (entryDateTime e) now) x else x)
             (entries s)"
    and ps: "parkings ?s' =
           map (\<lambda>q. if code q = parkingCode e then incrementAvailableSpaces 1 q else q)
             (parkings s)"
    and "totalAmount b = Some (exitCharge (hourlyFee p) (entryDateTime e) now)"
    and "bill_hourlyFee b = hourlyFee p"
    and "bill_durationInHours b = durationInHours (entryDateTime e) now"
    by (rule registerExit_ok)
  have codes: "map code (parkings ?s') = map code (parkings s)"
    unfolding ps by (rule map_code_upd) (rule incrementAvailableSpaces_simps)
  have ids: "map entry_id (entries ?s') = map entry_id (entries s)"
    unfolding es by (rule map_id_upd) (rule exitData_simps)
  have fk: "\<forall>x \<in> set (entries ?s'). parkingCode x \<in> set (map code (parkings s))"
    using assms unfolding es wf_store_def by (auto simp: exitData_simps)
  show ?thesis
    using assms fk unfolding wf_store_def codes ids by simp
qed

lemma wf_createParking:
  assumes "wf_store s" shows "wf_store (snd (createParking c nm tot loc fee s))"
proof (cases "fst (createParking c nm tot loc fee s)")
  case (Inl err)
  then show ?thesis
    using assms createParking_fail [of c nm tot loc fee s err] by (metis prod.collapse)
next
  case (Inr p)
  let ?s' = "snd (createParking c nm tot loc fee s)"
  have r: "createParking c nm tot loc fee s = (Inr p, ?s')"
    using Inr by (metis prod.collapse)
  note fx = createParking_ok [OF r]
  have "c \<notin> set (map code (parkings s))"
    using fx(1) findParking_None [of c s] by auto
  then show ?thesis
    using assms unfolding wf_store_def fx(3) fx(4) by (auto simp: fx(2))
qed

lemma wf_updateParking:
  assumes "wf_store s" shows "wf_store (snd (updateParking c nm tot loc fee s))"
proof (cases "fst (updateParking c nm tot loc fee s)")
  case (Inl err)
  then show ?thesis
    using assms updateParking_fail [of c nm tot loc fee s err] by (metis prod.collapse)
next
  case (Inr p')
  let ?s' = "snd (updateParking c nm tot loc fee s)"
  have r: "updateParking c nm tot loc fee s = (Inr p', ?s')"
    using Inr by (metis prod.collapse)
  from r obtain p where "findParking c s = Some p" and "p' = updateData p nm tot loc fee p"
    and ps: "parkings ?s' =
           map (\<lambda>q. if code q = c then updateData p nm tot loc fee q else q) (parkings s)"
    and es: "entries ?s' = entries s"
    by (rule updateParking_ok)
  have codes: "map code (parkings ?s') = map code (parkings s)"
    unfolding ps by (rule map_code_upd) (rule updateData_simps)
  show ?thesis
    using assms unfolding wf_store_def codes es by simp
qed

lemma wf_deleteParking:
  assumes "wf_store s" shows "wf_store (snd (deleteParking c s))"
proof (cases "fst (deleteParking c s)")
  case (Inl err)
  then show ?thesis
    using assms deleteParking_fail [of c s err] by (metis prod.collapse)
next
  case (Inr u)
  let ?s' = "snd (deleteParking c s)"
  have r: "deleteParking c s = (Inr u, ?s')"
    using Inr by (metis prod.collapse)
  note fx = deleteParking_ok [OF r]
  show ?thesis
    using assms fx(3) unfolding wf_store_def fx(1) fx(2)
    by (auto simp: distinct_map_filter)
qed

lemma wf_api: "wf_store s \<Longrightarrow> wf_store (api r s)"
  by (cases r)
    (simp_all add: api_def wf_createParking wf_updateParking wf_deleteParking
      wf_registerEntry wf_registerExit)

lemma wf_run: "wf_store s \<Longrightarrow> wf_store (run rs s)"
  by (induction rs arbitrary: s) (simp_all add: wf_api)

lemma wf_empty: "wf_store empty_store"
  by (simp add: wf_store_def empty_store_def)

subsection \<open>The ledger: available = total - open entries\<close>

lemma parking_unique:
  "wf_store s \<Longrightarrow> findParking c s = Some p \<Longrightarrow> q \<in> set (parkings s) \<Longrightarrow> code q = c \<Longrightarrow> q = p"
  using findParking_wf [of s q] by simp

lemma countActive_same: "entries s' = entries s \<Longrightarrow> countActive c s' = countActive c s"
  by (simp add: countActive_def)

lemma countActive_append:
  "entries s' = entries s @ [e] \<Longrightarrow>
   countActive c s' = countActive c s + (if parkingCode e = c \<and> exitDateTime e = None then 1 else 0)"
  by (simp add: countActive_def)

lemma countActive_exit:
  assumes "wf_store s" and "findEntry i s = Some e" and "exitDateTime e = None"
    and "entries s' = map (\<lambda>x. if entry_id x = i then exitData now a x else x) (entries s)"
  shows "countActive c s' + (if parkingCode e = c then 1 else 0) = countActive c s"
proof -
  from assms(2) have e: "e \<in> set (entries s)" and i: "entry_id e = i"
    using findEntry_SomeD by blast+
  from assms(1) have d: "distinct (map entry_id (entries s))"
    by (simp add: wf_store_def)
  show ?thesis
    using count_after_keyed_update [OF d e,
        of "\<lambda>x. parkingCode x = c \<and> exitDateTime x = None" "exitData now a"]
    by (simp add: countActive_def assms(3,4) i exitData_simps)
qed

lemma ledger_step:
  assumes "ledger s"
    and ps: "parkings s' = map (\<lambda>q. if code q = c then g q else q) (parkings s)"
    and g: "\<And>q. code (g q) = code q"
    and upd: "\<And>q. q \<in> set (parkings s) \<Longrightarrow> code q = c \<Longrightarrow>
        totalSpaces (g q) - availableSpaces (g q) - int (countActive c s')
          = totalSpaces q - availableSpaces q - int (countActive c s)"
    and others: "\<And>c'. c' \<noteq> c \<Longrightarrow> countActive c' s' = countActive c' s"
  shows "ledger s'"
  unfolding ledger_def
proof
  fix p' assume "p' \<in> set (parkings s')"
  then obtain q where q: "q \<in> set (parkings s)" and p': "p' = (if code q = c then g q else q)"
    unfolding ps by auto
  from assms(1) q have lq: "availableSpaces q = totalSpaces q - int (countActive (code q) s)"
    by (simp add: ledger_def)
  show "availableSpaces p' = totalSpaces p' - int (countActive (code p') s')"
  proof (cases "code q = c")
    case True
    with upd [OF q True] lq p' g [of q] show ?thesis by simp
  next
    case False
    with others [of "code q"] lq p' show ?thesis by simp
  qed
qed

lemma ledger_registerEntry:
  assumes "ledger s" shows "ledger (snd (registerEntry plate c newId now s))"
proof (cases "fst (registerEntry plate c newId now s)")
  case (Inl err)
  then show ?thesis
    using assms registerEntry_fail [of plate c newId now s err] by (metis prod.collapse)
next
  case (Inr ok)
  obtain e t where ok: "ok = (e, t)" by (cases ok)
  let ?s' = "snd (registerEntry plate c newId now s)"
  have r: "registerEntry plate c newId now s = (Inr (e, t), ?s')"
    using Inr ok by (metis prod.collapse)
  from r obtain p where p: "findParking c s = Some p" and "0 < availableSpaces p"
    and "ticket_hourlyFee t = hourlyFee p"
    and "findActiveEntry plate c s = None"
    and fresh: "findEntry newId s = None"
    and e: "e = \<lparr>entry_id = newId, plateNumber = plate, parkingCode = c, entryDateTime = now,
              exitDateTime = None, chargedAmount = None\<rparr>"
    and es: "entries ?s' = entries s @ [e]"
    and ps: "parkings ?s' =
           map (\<lambda>q. if code q = c then incrementAvailableSpaces (- 1) q else q) (parkings s)"
    by (rule registerEntry_ok)
  show ?thesis
    using assms ps
  proof (rule ledger_step)
    show "code (incrementAvailableSpaces (- 1) q) = code q" for q
      by (rule incrementAvailableSpaces_simps)
    show "countActive c' ?s' = countActive c' s" if "c' \<noteq> c" for c'
      using that countActive_append [OF es, of c'] by (simp add: e)
    show "totalSpaces (incrementAvailableSpaces (- 1) q)
            - availableSpaces (incrementAvailableSpaces (- 1) q) - int (countActive c ?s')
          = totalSpaces q - availableSpaces q - int (countActive c s)" for q
      using countActive_append [OF es, of c] by (simp add: e incrementAvailableSpaces_simps)
  qed
qed

lemma ledger_registerExit:
  assumes "wf_store s" "ledger s" shows "ledger (snd (registerExit i now s))"
proof (cases "fst (registerExit i now s)")
  case (Inl err)
  then show ?thesis
    using assms registerExit_fail [of i now s err] by (metis prod.collapse)
next
  case (Inr ok)
  obtain e' b where ok: "ok = (e', b)" by (cases ok)
  let ?s' = "snd (registerExit i now s)"
  have r: "registerExit i now s = (Inr (e', b), ?s')"
    using Inr ok by (metis prod.collapse)
  from r obtain e p where fe: "findEntry i s = Some e" and op: "exitDateTime e = None"
    and "findParking (parkingCode e) s = Some p"
    and "e' = exitData now (exitCharge (hourlyFee p) (entryDateTime e) now) e"
    and es: "entries ?s' =
           map (\<lambda>x. if entry_id x = i
                    then exitData now (exitCharge (hourlyFee p) (entryDateTime e) now) x else x)
             (entries s)"
    and ps: "parkings ?s' =
           map (\<lambda>q. if code q = parkingCode e then incrementAvailableSpaces 1 q else q)
             (parkings s)"
    and "totalAmount b = Some (exitCharge (hourlyFee p) (entryDateTime e) now)"
    and "bill_hourlyFee b = hourlyFee p"
    and "bill_durationInHours b = durationInHours (entryDateTime e) now"
    by (rule registerExit_ok)
  note cnt = countActive_exit [OF assms(1) fe op es]
  show ?thesis
    using assms(2) ps
  proof (rule ledger_step)
    show "code (incrementAvailableSpaces 1 q) = code q" for q
      by (rule incrementAvailableSpaces_simps)
    show "countActive c' ?s' = countActive c' s" if "c' \<noteq> parkingCode e" for c'
      using that cnt [of c'] by simp
    show "totalSpaces (incrementAvailableSpaces 1 q)
            - availableSpaces (incrementAvailableSpaces 1 q) - int (countActive (parkingCode e) ?s')
          = totalSpaces q - availableSpaces q - int (countActive (parkingCode e) s)" for q
      using cnt [of "parkingCode e"] by (simp add: incrementAvailableSpaces_simps)
  qed
qed

lemma ledger_createParking:
  assumes "wf_store s" "ledger s" shows "ledger (snd (createParking c nm tot loc fee s))"
proof (cases "fst (createParking c nm tot loc fee s)")
  case (Inl err)
  then show ?thesis
    using assms createParking_fail [of c nm tot loc fee s err] by (metis prod.collapse)
next
  case (Inr p)
  let ?s' = "snd (createParking c nm tot loc fee s)"
  have r: "createParking c nm tot loc fee s = (Inr p, ?s')"
    using Inr by (metis prod.collapse)
  note fx = createParking_ok [OF r]
  have "c \<notin> set (map code (parkings s))"
    using fx(1) findParking_None [of c s] by auto
  with assms(1) have "\<forall>e \<in> set (entries s). parkingCode e \<noteq> c"
    by (auto simp: wf_store_def)
  then have "countActive c s = 0"
    by (simp add: countActive_def)
  then show ?thesis
    using assms(2) countActive_same [OF fx(4)]
    unfolding ledger_def fx(3) by (auto simp: fx(2))
qed

lemma ledger_updateParking:
  assumes "wf_store s" "ledger s" "tot \<noteq> Some 0"
  shows "ledger (snd (updateParking c nm tot loc fee s))"
proof (cases "fst (updateParking c nm tot loc fee s)")
  case (Inl err)
  then show ?thesis
    using assms updateParking_fail [of c nm tot loc fee s err] by (metis prod.collapse)
next
  case (Inr p')
  let ?s' = "snd (updateParking c nm tot loc fee s)"
  have r: "updateParking c nm tot loc fee s = (Inr p', ?s')"
    using Inr by (metis prod.collapse)
  from r obtain p where p: "findParking c s = Some p" and "p' = updateData p nm tot loc fee p"
    and ps: "parkings ?s' =
           map (\<lambda>q. if code q = c then updateData p nm tot loc fee q else q) (parkings s)"
    and es: "entries ?s' = entries s"
    by (rule updateParking_ok)
  show ?thesis
    using assms(2) ps
  proof (rule ledger_step)
    show "code (updateData p nm tot loc fee q) = code q" for q
      by (rule updateData_simps)
    show "countActive c' ?s' = countActive c' s" for c'
      by (rule countActive_same [OF es])
    show "totalSpaces (updateData p nm tot loc fee q)
            - availableSpaces (updateData p nm tot loc fee q) - int (countActive c ?s')
          = totalSpaces q - availableSpaces q - int (countActive c s)"
      if "q \<in> set (parkings s)" "code q = c" for q
    proof -
      have "q = p" using parking_unique [OF assms(1) p that] .
      then show ?thesis
        using assms(3) countActive_same [OF es, of c]
        by (cases tot) (simp_all add: updateData_simps availableSpacesAdjustment_def)
    qed
  qed
qed

lemma ledger_deleteParking:
  assumes "ledger s" shows "ledger (snd (deleteParking c s))"
proof (cases "fst (deleteParking c s)")
  case (Inl err)
  then show ?thesis
    using assms deleteParking_fail [of c s err] by (metis prod.collapse)
next
  case (Inr u)
  let ?s' = "snd (deleteParking c s)"
  have r: "deleteParking c s = (Inr u, ?s')"
    using Inr by (metis prod.collapse)
  note fx = deleteParking_ok [OF r]
  show ?thesis
    using assms countActive_same [OF fx(1)] unfolding ledger_def fx(2) by simp
qed

lemma ledger_api: "wf_store s \<Longrightarrow> ledger s \<Longrightarrow> ledger (api r s)"
proof (cases r)
  case (PutParking c nm tot loc fee)
  assume "wf_store s" "ledger s"
  then show ?thesis
    using PutParking ledger_updateParking [of s tot c nm loc fee]
    by (cases tot) (auto simp: api_def)
qed (simp_all add: api_def ledger_createParking ledger_deleteParking
      ledger_registerEntry ledger_registerExit)

lemma ledger_run: "wf_store s \<Longrightarrow> ledger s \<Longrightarrow> ledger (run rs s)"
  by (induction rs arbitrary: s) (simp_all add: wf_api ledger_api)

lemma ledger_empty: "ledger empty_store"
  by (simp add: ledger_def empty_store_def)

subsection \<open>Bounds of the available count\<close>

lemma ledger_upper:
  "ledger s \<Longrightarrow> p \<in> set (parkings s) \<Longrightarrow> availableSpaces p \<le> totalSpaces p"
  by (simp add: ledger_def)

lemma nonneg_api:
  assumes wf: "wf_store s" and le: "ledger s"
    and nn: "\<forall>p \<in> set (parkings s). 0 \<le> availableSpaces p"
    and ns: "\<not> shrinks r s"
  shows "\<forall>p \<in> set (parkings (api r s)). 0 \<le> availableSpaces p"
proof (cases "validateRequest r")
  case False
  then show ?thesis using nn by (simp add: api_def)
next
  case valid: True
  show ?thesis
  proof (cases r)
    case (PostParking c nm tot loc fee)
    show ?thesis
    proof (cases "fst (createParking c nm tot loc fee s)")
      case (Inl err)
      then have "snd (createParking c nm tot loc fee s) = s"
        using createParking_fail [of c nm tot loc fee s err] by (metis prod.collapse)
      then show ?thesis using nn valid PostParking by (simp add: api_def)
    next
      case (Inr p)
      then have r: "createParking c nm tot loc fee s = (Inr p, snd (createParking c nm tot loc fee s))"
        by (metis prod.collapse)
      note fx = createParking_ok [OF r]
      show ?thesis
        using nn valid PostParking by (auto simp: api_def fx(3) fx(2))
    qed
  next
    case (PutParking c nm tot loc fee)
    let ?s' = "snd (updateParking c nm tot loc fee s)"
    have s': "api r s = ?s'" using valid PutParking by (simp add: api_def)
    have le': "ledger ?s'" using ledger_api [OF wf le, of r] s' by simp
    show ?thesis
    proof (cases "fst (updateParking c nm tot loc fee s)")
      case (Inl err)
      then have "?s' = s"
        using updateParking_fail [of c nm tot loc fee s err] by (metis prod.collapse)
      then show ?thesis using nn s' by simp
    next
      case (Inr p')
      then have r: "updateParking c nm tot loc fee s = (Inr p', ?s')"
        by (metis prod.collapse)
      from r obtain p where p: "findParking c s = Some p" and "p' = updateData p nm tot loc fee p"
        and ps: "parkings ?s' =
           map (\<lambda>q. if code q = c then updateData p nm tot loc fee q else q) (parkings s)"
        and es: "entries ?s' = entries s"
        by (rule updateParking_ok)
      show ?thesis
        unfolding s'
      proof
        fix q' assume q': "q' \<in> set (parkings ?s')"
        then obtain q where q: "q \<in> set (parkings s)"
          and q'q: "q' = (if code q = c then updateData p nm tot loc fee q else q)"
          unfolding ps by auto
        show "0 \<le> availableSpaces q'"
        proof (cases "code q = c")
          case False
          then show ?thesis using nn q q'q by simp
        next
          case True
          show ?thesis
          proof (cases tot)
            case None
            then show ?thesis
              using nn q q'q True by (simp add: updateData_simps availableSpacesAdjustment_def)
          next
            case (Some t)
            have "t \<noteq> 0" using valid PutParking Some by auto
            then have tq: "totalSpaces q' = t" "code q' = c"
              using q'q True Some by (simp_all add: updateData_simps)
            have "int (countActive c s) \<le> t" using ns PutParking Some by simp
            moreover have "availableSpaces q' = totalSpaces q' - int (countActive (code q') ?s')"
              using le' q' by (simp add: ledger_def)
            ultimately show ?thesis
              using tq countActive_same [OF es, of c] by simp
          qed
        qed
      qed
    qed
  next
    case (DeleteParking c)
    show ?thesis
    proof (cases "fst (deleteParking c s)")
      case (Inl err)
      then have "snd (deleteParking c s) = s"
        using deleteParking_fail [of c s err] by (metis prod.collapse)
      then show ?thesis using nn valid DeleteParking by (simp add: api_def)
    next
      case (Inr u)
      then have r: "deleteParking c s = (Inr u, snd (deleteParking c s))"
        by (metis prod.collapse)
      note fx = deleteParking_ok [OF r]
      show ?thesis
        using nn valid DeleteParking by (simp add: api_def fx(2))
    qed
  next
    case (PostEntry plate c newId now)
    let ?s' = "snd (registerEntry plate c newId now s)"
    have s': "api r s = ?s'" using valid PostEntry by (simp add: api_def)
    show ?thesis
    proof (cases "fst (registerEntry plate c newId now s)")
      case (Inl err)
      then have "?s' = s"
        using registerEntry_fail [of plate c newId now s err] by (metis prod.collapse)
      then show ?thesis using nn s' by simp
    next
      case (Inr ok)
      obtain e t where ok: "ok = (e, t)" by (cases ok)
      have r: "registerEntry plate c newId now s = (Inr (e, t), ?s')"
        using Inr ok by (metis prod.collapse)
      from r obtain p where p: "findParking c s = Some p" and pos: "0 < availableSpaces p"
        and "ticket_hourlyFee t = hourlyFee p"
        and "findActiveEntry plate c s = None"
        and fresh: "findEntry newId s = None"
        and e: "e = \<lparr>entry_id = newId, plateNumber = plate, parkingCode = c, entryDateTime = now,
              exitDateTime = None, chargedAmount = None\<rparr>"
        and es: "entries ?s' = entries s @ [e]"
        and ps: "parkings ?s' =
           map (\<lambda>q. if code q = c then incrementAvailableSpaces (- 1) q else q) (parkings s)"
        by (rule registerEntry_ok)
      show ?thesis
        unfolding s'
      proof
        fix q' assume "q' \<in> set (parkings ?s')"
        then obtain q where q: "q \<in> set (parkings s)"
          and q'q: "q' = (if code q = c then incrementAvailableSpaces (- 1) q else q)"
          unfolding ps by auto
        show "0 \<le> availableSpaces q'"
        proof (cases "code q = c")
          case False
          then show ?thesis using nn q q'q by simp
        next
          case True
          then have "q = p" using parking_unique [OF wf p q] by simp
          then show ?thesis using pos q'q True by (simp add: incrementAvailableSpaces_simps)
        qed
      qed
    qed
  next
    case (PutEntryExit i now)
    let ?s' = "snd (registerExit i now s)"
    have s': "api r s = ?s'" using valid PutEntryExit by (simp add: api_def)
    show ?thesis
    proof (cases "fst (registerExit i now s)")
      case (Inl err)
      then have "?s' = s"
        using registerExit_fail [of i now s err] by (metis prod.collapse)
      then show ?thesis using nn s' by simp
    next
      case (Inr ok)
      obtain e' b where ok: "ok = (e', b)" by (cases ok)
      have r: "registerExit i now s = (Inr (e', b), ?s')"
        using Inr ok by (metis prod.collapse)
      from r obtain e p where fe: "findEntry i s = Some e" and op: "exitDateTime e = None"
        and "findParking (parkingCode e) s = Some p"
        and "e' = exitData now (exitCharge (hourlyFee p) (entryDateTime e) now) e"
        and es: "entries ?s' =
           map (\<lambda>x. if entry_id x = i
                    then exitData now (exitCharge (hourlyFee p) (entryDateTime e) now) x else x)
             (entries s)"
        and ps: "parkings ?s' =
           map (\<lambda>q. if code q = parkingCode e then incrementAvailableSpaces 1 q else q)
             (parkings s)"
        and "totalAmount b = Some (exitCharge (hourlyFee p) (entryDateTime e) now)"
        and "bill_hourlyFee b = hourlyFee p"
        and "bill_durationInHours b = durationInHours (entryDateTime e) now"
        by (rule registerExit_ok)
      show ?thesis
        unfolding s' ps using nn by (auto simp: incrementAvailableSpaces_simps)
    qed
  qed
qed

lemma nonneg_run:
  "wf_store s \<Longrightarrow> ledger s \<Longrightarrow> \<forall>p \<in> set (parkings s). 0 \<le> availableSpaces p \<Longrightarrow>
   no_shrink rs s \<Longrightarrow> \<forall>p \<in> set (parkings (run rs s)). 0 \<le> availableSpaces p"
proof (induction rs arbitrary: s)
  case Nil
  then show ?case by simp
next
  case (Cons r rs)
  from Cons.prems have "\<not> shrinks r s" and "no_shrink rs (api r s)" by simp_all
  with Cons.prems Cons.IH [of "api r s"] wf_api [of s r] ledger_api [of s r]
    nonneg_api [of s r]
  show ?case by simp
qed

text \<open>
  What the handlers do keep: after every sequence of API requests (parking creation,
  update and deletion, entry and exit registration) from the empty store, every
  parking's available count equals its total less the number of its open entries, hence
  never exceeds the total; it is also never negative provided no update request in the
  sequence sets a total below the number of entries open in that parking at that moment.
\<close>

lemma availableSpaces_ledger_bounds:
  "\<forall>p \<in> set (parkings (run rs empty_store)).
     availableSpaces p = totalSpaces p - int (countActive (code p) (run rs empty_store))
     \<and> availableSpaces p \<le> totalSpaces p
     \<and> (no_shrink rs empty_store \<longrightarrow> 0 \<le> availableSpaces p)"
proof -
  have l: "ledger (run rs empty_store)"
    by (rule ledger_run [OF wf_empty ledger_empty])
  have "\<forall>p \<in> set (parkings (run rs empty_store)). 0 \<le> availableSpaces p"
    if "no_shrink rs empty_store"
    using nonneg_run [OF wf_empty ledger_empty _ that] by (simp add: empty_store_def)
  with l show ?thesis
    by (auto simp: ledger_def)
qed

lemma availableSpaces_ledger_bounds_example:
  "no_shrink
     [PostParking ''P002'' ''North Parking'' 2 ''North District'' 2,
      PostEntry ''RAB123A'' ''P002'' ''e1'' 0,
      PostEntry ''RAC456B'' ''P002'' ''e2'' 60000,
      PutEntryExit ''e1'' 3900000,
      PutParking ''P002'' None (Some 1) None None] empty_store
   \<and> 0 \<le> availableSpaces (hd (parkings (run
     [PostParking ''P002'' ''North Parking'' 2 ''North District'' 2,
      PostEntry ''RAB123A'' ''P002'' ''e1'' 0,
      PostEntry ''RAC456B'' ''P002'' ''e2'' 60000,
      PutEntryExit ''e1'' 3900000,
      PutParking ''P002'' None (Some 1) None None] empty_store)))
   \<and> availableSpaces (hd (parkings (run
     [PostParking ''P002'' ''North Parking'' 2 ''North District'' 2,
      PostEntry ''RAB123A'' ''P002'' ''e1'' 0,
      PostEntry ''RAC456B'' ''P002'' ''e2'' 60000,
      PutEntryExit ''e1'' 3900000,
      PutParking ''P002'' None (Some 1) None None] empty_store)))
     \<le> totalSpaces (hd (parkings (run
     [PostParking ''P002'' ''North Parking'' 2 ''North District'' 2,
      PostEntry ''RAB123A'' ''P002'' ''e1'' 0,
      PostEntry ''RAC456B'' ''P002'' ''e2'' 60000,
      PutEntryExit ''e1'' 3900000,
      PutParking ''P002'' None (Some 1) None None] empty_store)))"
proof -
  let ?rs = "[PostParking ''P002'' ''North Parking'' 2 ''North District'' 2,
      PostEntry ''RAB123A'' ''P002'' ''e1'' 0,
      PostEntry ''RAC456B'' ''P002'' ''e2'' 60000,
      PutEntryExit ''e1'' 3900000,
      PutParking ''P002'' None (Some 1) None None]"
  have ns: "no_shrink ?rs empty_store" by code_simp
  have ne: "parkings (run ?rs empty_store) \<noteq> []" by code_simp
  then have "hd (parkings (run ?rs empty_store)) \<in> set (parkings (run ?rs empty_store))"
    by (rule hd_in_set)
  with availableSpaces_ledger_bounds [of ?rs] ns show ?thesis
    by blast
qed

text \<open>
  C2. The invariant \<open>0 \<le> availableSpaces \<le> totalSpaces\<close> is meant to hold for every
  parking after every sequence of API operations; the entry handler guards it by refusing
  an entry when no space is available, but the update handler does not: two cars enter a
  parking of two spaces, a valid update then sets the total to one and shifts the
  available count by the same delta, to minus one.
\<close>

theorem availableSpaces_negative_after_shrinking_update:
  "list_all validateRequest
     [PostParking ''P002'' ''North Parking'' 2 ''North District'' 2,
      PostEntry ''RAB123A'' ''P002'' ''e1'' 0,
      PostEntry ''RAC456B'' ''P002'' ''e2'' 60000,
      PutParking ''P002'' None (Some 1) None None]
   \<and> map availableSpaces (parkings (run
     [PostParking ''P002'' ''North Parking'' 2 ''North District'' 2,
      PostEntry ''RAB123A'' ''P002'' ''e1'' 0,
      PostEntry ''RAC456B'' ''P002'' ''e2'' 60000,
      PutParking ''P002'' None (Some 1) None None] empty_store)) = [- 1]"
  by code_simp

section \<open>How requests change a parking\<close>

lemma findParking_upd:
  assumes "parkings s' = map (\<lambda>q. if code q = c then g q else q) (parkings s)"
    and "\<And>q. code (g q) = code q"
  shows "findParking c' s' = (if c' = c then map_option g (findParking c' s) else findParking c' s)"
  unfolding findParking_def assms(1) using assms(2) by (rule find_upd)

lemma findParking_registerEntry:
  "findParking c' (snd (registerEntry plate c newId now s)) =
     (if c' = c \<and> \<not> isl (fst (registerEntry plate c newId now s))
      then map_option (incrementAvailableSpaces (- 1)) (findParking c' s)
      else findParking c' s)"
proof (cases "fst (registerEntry plate c newId now s)")
  case (Inl err)
  then have "snd (registerEntry plate c newId now s) = s"
    using registerEntry_fail [of plate c newId now s err] by (metis prod.collapse)
  with Inl show ?thesis by simp
next
  case (Inr ok)
  obtain e t where ok: "ok = (e, t)" by (cases ok)
  let ?s' = "snd (registerEntry plate c newId now s)"
  have r: "registerEntry plate c newId now s = (Inr (e, t), ?s')"
    using Inr ok by (metis prod.collapse)
  from r obtain p where p: "findParking c s = Some p" and pos: "0 < availableSpaces p"
    and "ticket_hourlyFee t = hourlyFee p"
    and "findActiveEntry plate c s = None"
    and fresh: "findEntry newId s = None"
    and e: "e = \<lparr>entry_id = newId, plateNumber = plate, parkingCode = c, entryDateTime = now,
          exitDateTime = None, chargedAmount = None\<rparr>"
    and es: "entries ?s' = entries s @ [e]"
    and ps: "parkings ?s' =
       map (\<lambda>q. if code q = c then incrementAvailableSpaces (- 1) q else q) (parkings s)"
    by (rule registerEntry_ok)
  show ?thesis
    using findParking_upd [OF ps incrementAvailableSpaces_simps(1), of c'] Inr by simp
qed

lemma findParking_registerExit:
  "findParking c' (snd (registerExit i now s)) =
     (if \<not> isl (fst (registerExit i now s)) \<and> map_option parkingCode (findEntry i s) = Some c'
      then map_option (incrementAvailableSpaces 1) (findParking c' s)
      else findParking c' s)"
proof (cases "fst (registerExit i now s)")
  case (Inl err)
  then have "snd (registerExit i now s) = s"
    using registerExit_fail [of i now s err] by (metis prod.collapse)
  with Inl show ?thesis by simp
next
  case (Inr ok)
  obtain e' b where ok: "ok = (e', b)" by (cases ok)
  let ?s' = "snd (registerExit i now s)"
  have r: "registerExit i now s = (Inr (e', b), ?s')"
    using Inr ok by (metis prod.collapse)
  from r obtain e p where fe: "findEntry i s = Some e" and op: "exitDateTime e = None"
    and "findParking (parkingCode e) s = Some p"
    and "e' = exitData now (exitCharge (hourlyFee p) (entryDateTime e) now) e"
    and es: "entries ?s' =
       map (\<lambda>x. if entry_id x = i
                then exitData now (exitCharge (hourlyFee p) (entryDateTime e) now) x else x)
         (entries s)"
    and ps: "parkings ?s' =
       map (\<lambda>q. if code q = parkingCode e then incrementAvailableSpaces 1 q else q)
         (parkings s)"
    and "totalAmount b = Some (exitCharge (hourlyFee p) (entryDateTime e) now)"
    and "bill_hourlyFee b = hourlyFee p"
    and "bill_durationInHours b = durationInHours (entryDateTime e) now"
    by (rule registerExit_ok)
  show ?thesis
    using findParking_upd [OF ps incrementAvailableSpaces_simps(1), of c'] Inr fe by auto
qed

lemma findParking_updateParking:
  "findParking c' (snd (updateParking c nm tot loc fee s)) =
     (if c' = c then map_option (\<lambda>p. updateData p nm tot loc fee p) (findParking c' s)
      else findParking c' s)"
proof (cases "fst (updateParking c nm tot loc fee s)")
  case (Inl err)
  then have "updateParking c nm tot loc fee s = (Inl err, snd (updateParking c nm tot loc fee s))"
    by (metis prod.collapse)
  then have "findParking c s = None" and "snd (updateParking c nm tot loc fee s) = s"
    by (auto simp: updateParking_def Let_def split: option.splits)
  then show ?thesis by auto
next
  case (Inr p')
  let ?s' = "snd (updateParking c nm tot loc fee s)"
  have r: "updateParking c nm tot loc fee s = (Inr p', ?s')"
    using Inr by (metis prod.collapse)
  from r obtain p where p: "findParking c s = Some p" and "p' = updateData p nm tot loc fee p"
    and ps: "parkings ?s' =
       map (\<lambda>q. if code q = c then updateData p nm tot loc fee q else q) (parkings s)"
    and es: "entries ?s' = entries s"
    by (rule updateParking_ok)
  show ?thesis
    using findParking_upd [OF ps updateData_simps(1), of c'] p by simp
qed

lemma findParking_createParking:
  "findParking c' s = Some p \<Longrightarrow> findParking c' (snd (createParking c nm tot loc fee s)) = Some p"
  by (auto simp: createParking_def Let_def findParking_def find_append_new split: option.splits)

lemma findParking_deleteParking:
  "findParking c' (snd (deleteParking c s)) = Some p' \<Longrightarrow> findParking c' s = Some p'"
  by (auto simp: deleteParking_def Let_def findParking_def find_filter_other
      split: option.splits if_splits)

text \<open>
  C7. Whatever the request, a parking that exists before and after it has its available
  count changed as follows: an administrative update changes it by exactly the delta of
  the total (\<open>T' - T\<close>); a successful entry registration at that parking lowers it by
  exactly one and a successful exit of one of its entries raises it by exactly one,
  leaving the total alone; every other request (creation or deletion of a parking, a
  failed or rejected request, an entry or exit at another parking) leaves both counts as
  they were.
\<close>

theorem availableSpaces_changes:
  assumes "findParking c s = Some p" and "findParking c (api r s) = Some p'"
  shows "(r = PutParking c0 nm tot loc fee \<longrightarrow>
            availableSpaces p' - availableSpaces p = totalSpaces p' - totalSpaces p)
    \<and> (r = PostEntry plate c0 newId now \<longrightarrow>
            totalSpaces p' = totalSpaces p
            \<and> availableSpaces p' = availableSpaces p -
                (if validateRequest r \<and> c0 = c
                    \<and> \<not> isl (fst (registerEntry plate c0 newId now s)) then 1 else 0))
    \<and> (r = PutEntryExit i now \<longrightarrow>
            totalSpaces p' = totalSpaces p
            \<and> availableSpaces p' = availableSpaces p +
                (if validateRequest r \<and> map_option parkingCode (findEntry i s) = Some c
                    \<and> \<not> isl (fst (registerExit i now s)) then 1 else 0))
    \<and> (r = PostParking c0 nm0 tot0 loc0 fee0 \<or> r = DeleteParking c0 \<longrightarrow>
            totalSpaces p' = totalSpaces p \<and> availableSpaces p' = availableSpaces p)"
proof -
  have put: "availableSpaces p' - availableSpaces p = totalSpaces p' - totalSpaces p"
    if r: "r = PutParking c0 nm tot loc fee"
  proof (cases "validateRequest r \<and> c0 = c")
    case False
    then have "p' = p"
      using assms r findParking_updateParking [of c c0 nm tot loc fee s]
      by (auto simp: api_def split: if_splits)
    then show ?thesis by simp
  next
    case True
    then have "p' = updateData p nm tot loc fee p"
      using assms r findParking_updateParking [of c c0 nm tot loc fee s]
      by (auto simp: api_def)
    moreover have "tot \<noteq> Some 0" using True r by auto
    ultimately show ?thesis
      by (cases tot) (auto simp: updateData_simps availableSpacesAdjustment_def)
  qed
  have enter: "totalSpaces p' = totalSpaces p
     \<and> availableSpaces p' = availableSpaces p -
         (if validateRequest r \<and> c0 = c
             \<and> \<not> isl (fst (registerEntry plate c0 newId now s)) then 1 else 0)"
    if r: "r = PostEntry plate c0 newId now"
    using assms r findParking_registerEntry [of c plate c0 newId now s]
    by (auto simp: api_def incrementAvailableSpaces_simps split: if_splits)
  have leave: "totalSpaces p' = totalSpaces p
     \<and> availableSpaces p' = availableSpaces p +
         (if validateRequest r \<and> map_option parkingCode (findEntry i s) = Some c
             \<and> \<not> isl (fst (registerExit i now s)) then 1 else 0)"
    if r: "r = PutEntryExit i now"
    using assms r findParking_registerExit [of c i now s]
    by (auto simp: api_def incrementAvailableSpaces_simps split: if_splits)
  have other: "totalSpaces p' = totalSpaces p \<and> availableSpaces p' = availableSpaces p"
    if r: "r = PostParking c0 nm0 tot0 loc0 fee0 \<or> r = DeleteParking c0"
  proof -
    have "p' = p"
      using r assms findParking_createParking [OF assms(1), of c0 nm0 tot0 loc0 fee0]
        findParking_deleteParking [of c c0 s p']
      by (auto simp: api_def split: if_splits)
    then show ?thesis by simp
  qed
  show ?thesis
    using put enter leave other by blast
qed

theorem availableSpaces_changes_witness:
  "availableSpaces (the (findParking ''P002''
        (api (PutParking ''P002'' None (Some 5) None None) one_car)))
     - availableSpaces (the (findParking ''P002'' one_car)) = 5 - 2
   \<and> availableSpaces (the (findParking ''P002''
        (api (PostEntry ''RAC456B'' ''P002'' ''e2'' 60000) one_car)))
     = availableSpaces (the (findParking ''P002'' one_car)) - 1
   \<and> availableSpaces (the (findParking ''P002'' (api (PutEntryExit ''e1'' 3900000) one_car)))
     = availableSpaces (the (findParking ''P002'' one_car)) + 1"
proof -
  let ?p = "\<lparr>code = ''P002'', name = ''North Parking'', totalSpaces = 2, availableSpaces = 1,
             location = ''North District'', hourlyFee = 2\<rparr>"
  let ?put = "PutParking ''P002'' None (Some 5) None None"
  let ?enter = "PostEntry ''RAC456B'' ''P002'' ''e2'' 60000"
  let ?leave = "PutEntryExit ''e1'' 3900000"
  have p: "findParking ''P002'' one_car = Some ?p" by code_simp
  have p1: "findParking ''P002'' (api ?put one_car) = Some (?p\<lparr>totalSpaces := 5, availableSpaces := 4\<rparr>)"
    by code_simp
  have p2: "findParking ''P002'' (api ?enter one_car) = Some (?p\<lparr>availableSpaces := 0\<rparr>)"
    by code_simp
  have p3: "findParking ''P002'' (api ?leave one_car) = Some (?p\<lparr>availableSpaces := 2\<rparr>)"
    by code_simp
  have ok2: "\<not> isl (fst (registerEntry ''RAC456B'' ''P002'' ''e2'' 60000 one_car))" by code_simp
  have ok3: "\<not> isl (fst (registerExit ''e1'' 3900000 one_car))
      \<and> map_option parkingCode (findEntry ''e1'' one_car) = Some ''P002''" by code_simp
  show ?thesis
    using availableSpaces_changes [OF p p1, where ?c0.0 = "''P002''" and nm = None
        and tot = "Some 5" and loc = None and fee = None]
      availableSpaces_changes [OF p p2, where plate = "''RAC456B''" and ?c0.0 = "''P002''"
        and newId = "''e2''" and now = 60000]
      availableSpaces_changes [OF p p3, where i = "''e1''" and now = 3900000]
      ok2 ok3
    by (simp add: p p1 p2 p3)
qed

section \<open>Charge and exit time are set together\<close>

lemma paired_registerEntry:
  assumes "paired s" shows "paired (snd (registerEntry plate c newId now s))"
proof (cases "fst (registerEntry plate c newId now s)")
  case (Inl err)
  then show ?thesis
    using assms registerEntry_fail [of plate c newId now s err] by (metis prod.collapse)
next
  case (Inr ok)
  obtain e t where ok: "ok = (e, t)" by (cases ok)
  let ?s' = "snd (registerEntry plate c newId now s)"
  have r: "registerEntry plate c newId now s = (Inr (e, t), ?s')"
    using Inr ok by (metis prod.collapse)
  from r obtain p where p: "findParking c s = Some p" and pos: "0 < availableSpaces p"
    and "ticket_hourlyFee t = hourlyFee p"
    and "findActiveEntry plate c s = None"
    and fresh: "findEntry newId s = None"
    and e: "e = \<lparr>entry_id = newId, plateNumber = plate, parkingCode = c, entryDateTime = now,
          exitDateTime = None, chargedAmount = None\<rparr>"
    and es: "entries ?s' = entries s @ [e]"
    and ps: "parkings ?s' =
       map (\<lambda>q. if code q = c then incrementAvailableSpaces (- 1) q else q) (parkings s)"
    by (rule registerEntry_ok)
  show ?thesis
    using assms unfolding paired_def es by (auto simp: e)
qed

lemma paired_registerExit:
  assumes "paired s" shows "paired (snd (registerExit i now s))"
proof (cases "fst (registerExit i now s)")
  case (Inl err)
  then show ?thesis
    using assms registerExit_fail [of i now s err] by (metis prod.collapse)
next
  case (Inr ok)
  obtain e' b where ok: "ok = (e', b)" by (cases ok)
  let ?s' = "snd (registerExit i now s)"
  have r: "registerExit i now s = (Inr (e', b), ?s')"
    using Inr ok by (metis prod.collapse)
  from r obtain e p where fe: "findEntry i s = Some e" and op: "exitDateTime e = None"
    and "findParking (parkingCode e) s = Some p"
    and "e' = exitData now (exitCharge (hourlyFee p) (entryDateTime e) now) e"
    and es: "entries ?s' =
       map (\<lambda>x. if entry_id x = i
                then exitData now (exitCharge (hourlyFee p) (entryDateTime e) now) x else x)
         (entries s)"
    and ps: "parkings ?s' =
       map (\<lambda>q. if code q = parkingCode e then incrementAvailableSpaces 1 q else q)
         (parkings s)"
    and "totalAmount b = Some (exitCharge (hourlyFee p) (entryDateTime e) now)"
    and "bill_hourlyFee b = hourlyFee p"
    and "bill_durationInHours b = durationInHours (entryDateTime e) now"
    by (rule registerExit_ok)
  show ?thesis
    using assms unfolding paired_def es by (auto simp: exitData_simps)
qed

lemma entries_createParking: "entries (snd (createParking c nm tot loc fee s)) = entries s"
  by (auto simp: createParking_def Let_def split: option.splits)

lemma entries_updateParking: "entries (snd (updateParking c nm tot loc fee s)) = entries s"
  by (auto simp: updateParking_def Let_def updateParkingWhere_def split: option.splits)

lemma entries_deleteParking: "entries (snd (deleteParking c s)) = entries s"
  by (auto simp: deleteParking_def Let_def split: option.splits)

lemma paired_api: "paired s \<Longrightarrow> paired (api r s)"
proof (cases r)
  case (PostEntry plate c newId now)
  assume "paired s"
  then show ?thesis using PostEntry by (simp add: api_def paired_registerEntry)
next
  case (PutEntryExit i now)
  assume "paired s"
  then show ?thesis using PutEntryExit by (simp add: api_def paired_registerExit)
qed (simp_all add: api_def paired_def entries_createParking entries_updateParking
      entries_deleteParking)

lemma paired_run: "paired s \<Longrightarrow> paired (run rs s)"
  by (induction rs arbitrary: s) (simp_all add: paired_api)

text \<open>
  C9. In every state reached through the API from the empty store, an entry has a
  charged amount exactly when it has an exit time: an entry is created with both fields
  null, and a successful exit sets both in the one update that closes the entry.
\<close>

theorem chargedAmount_iff_exitDateTime:
  "(\<forall>x \<in> set (entries (run rs empty_store)).
       (chargedAmount x \<noteq> None) = (exitDateTime x \<noteq> None))
   \<and> (registerEntry plate c newId now s = (Inr (e, t), s') \<longrightarrow>
         exitDateTime e = None \<and> chargedAmount e = None)
   \<and> (registerExit i now s = (Inr (e', b), s'') \<longrightarrow>
         exitDateTime e' = Some now \<and> chargedAmount e' \<noteq> None
         \<and> findEntry i s'' = Some e')"
proof -
  have "paired empty_store" by (simp add: paired_def empty_store_def)
  then have a: "paired (run rs empty_store)" by (rule paired_run)
  have b: "exitDateTime e = None \<and> chargedAmount e = None"
    if "registerEntry plate c newId now s = (Inr (e, t), s')"
    using that by (rule registerEntry_ok) simp
  have c: "exitDateTime e' = Some now \<and> chargedAmount e' \<noteq> None \<and> findEntry i s'' = Some e'"
    if r: "registerExit i now s = (Inr (e', b), s'')"
  proof -
    from r obtain e p where fe: "findEntry i s = Some e" and op: "exitDateTime e = None"
      and "findParking (parkingCode e) s = Some p"
      and e': "e' = exitData now (exitCharge (hourlyFee p) (entryDateTime e) now) e"
      and es: "entries s'' =
         map (\<lambda>x. if entry_id x = i
                  then exitData now (exitCharge (hourlyFee p) (entryDateTime e) now) x else x)
           (entries s)"
      and ps: "parkings s'' =
         map (\<lambda>q. if code q = parkingCode e then incrementAvailableSpaces 1 q else q)
           (parkings s)"
      and "totalAmount b = Some (exitCharge (hourlyFee p) (entryDateTime e) now)"
      and "bill_hourlyFee b = hourlyFee p"
      and "bill_durationInHours b = durationInHours (entryDateTime e) now"
      by (rule registerExit_ok)
    have "find (\<lambda>x. entry_id x = i) (map (\<lambda>x. if entry_id x = i then g x else x) xs)
            = map_option g (find (\<lambda>x. entry_id x = i) xs)"
      if "\<And>x. entry_id (g x) = entry_id x" for g xs
      using that by (induction xs) auto
    from this [of "exitData now (exitCharge (hourlyFee p) (entryDateTime e) now)" "entries s"]
    have "findEntry i s'' = Some e'"
      using fe by (simp add: findEntry_def es e' exitData_simps)
    then show ?thesis by (simp add: e' exitData_simps)
  qed
  show ?thesis
    using a b c unfolding paired_def by blast
qed

theorem chargedAmount_iff_exitDateTime_witness:
  "list_all (\<lambda>x. (chargedAmount x \<noteq> None) = (exitDateTime x \<noteq> None)) (entries two_visits)
   \<and> map exitDateTime (entries two_visits) = [Some 3900000, None]
   \<and> map chargedAmount (entries two_visits) = [Some 4, None]
   \<and> fst (registerEntry ''RAC456B'' ''P002'' ''e2'' 60000 one_car)
       = Inr (\<lparr>entry_id = ''e2'', plateNumber = ''RAC456B'', parkingCode = ''P002'',
                entryDateTime = 60000, exitDateTime = None, chargedAmount = None\<rparr>,
              \<lparr>ticketNumber = ''e2'', ticket_plateNumber = ''RAC456B'',
                ticket_parkingName = ''North Parking'', ticket_entryDateTime = 60000,
                ticket_hourlyFee = 2\<rparr>)
   \<and> findEntry ''e1'' (snd (registerExit ''e1'' 3900000 one_car))
       = Some \<lparr>entry_id = ''e1'', plateNumber = ''RAB123A'', parkingCode = ''P002'',
                entryDateTime = 0, exitDateTime = Some 3900000, chargedAmount = Some 4\<rparr>"
proof -
  let ?rs = "[PostParking ''P002'' ''North Parking'' 2 ''North District'' 2,
              PostEntry ''RAB123A'' ''P002'' ''e1'' 0,
              PostEntry ''RAC456B'' ''P002'' ''e2'' 60000,
              PutEntryExit ''e1'' 3900000]"
  let ?e2 = "\<lparr>entry_id = ''e2'', plateNumber = ''RAC456B'', parkingCode = ''P002'',
                entryDateTime = 60000, exitDateTime = None, chargedAmount = None\<rparr>"
  let ?t2 = "\<lparr>ticketNumber = ''e2'', ticket_plateNumber = ''RAC456B'',
                ticket_parkingName = ''North Parking'', ticket_entryDateTime = 60000,
                ticket_hourlyFee = 2\<rparr>"
  let ?e1 = "\<lparr>entry_id = ''e1'', plateNumber = ''RAB123A'', parkingCode = ''P002'',
                entryDateTime = 0, exitDateTime = Some 3900000, chargedAmount = Some 4\<rparr>"
  have en: "fst (registerEntry ''RAC456B'' ''P002'' ''e2'' 60000 one_car) = Inr (?e2, ?t2)"
    by code_simp
  then have en': "registerEntry ''RAC456B'' ''P002'' ''e2'' 60000 one_car
      = (Inr (?e2, ?t2), snd (registerEntry ''RAC456B'' ''P002'' ''e2'' 60000 one_car))"
    by (metis prod.collapse)
  have "map_sum id fst (fst (registerExit ''e1'' 3900000 one_car)) = Inr ?e1"
    by code_simp
  then obtain b where "fst (registerExit ''e1'' 3900000 one_car) = Inr (?e1, b)"
    by (cases "fst (registerExit ''e1'' 3900000 one_car)") auto
  then have ex: "registerExit ''e1'' 3900000 one_car
      = (Inr (?e1, b), snd (registerExit ''e1'' 3900000 one_car))"
    by (metis prod.collapse)
  have xs: "map exitDateTime (entries two_visits) = [Some 3900000, None]"
    and cs: "map chargedAmount (entries two_visits) = [Some 4, None]"
    by code_simp+
  from chargedAmount_iff_exitDateTime
    [where rs = ?rs and plate = "''RAC456B''" and c = "''P002''" and newId = "''e2''"
       and now = 60000 and s = one_car and e = ?e2 and t = ?t2
       and s' = "snd (registerEntry ''RAC456B'' ''P002'' ''e2'' 60000 one_car)"]
    chargedAmount_iff_exitDateTime
    [where rs = ?rs and i = "''e1''" and now = 3900000 and s = one_car and e' = ?e1 and b = b
       and s'' = "snd (registerExit ''e1'' 3900000 one_car)"]
    en' ex
  have "\<forall>x \<in> set (entries two_visits). (chargedAmount x \<noteq> None) = (exitDateTime x \<noteq> None)"
    and "findEntry ''e1'' (snd (registerExit ''e1'' 3900000 one_car)) = Some ?e1"
    unfolding two_visits_def by blast+
  then show ?thesis
    using en xs cs by (simp add: list_all_iff)
qed

section \<open>Closed entries stay closed\<close>

lemma findEntry_upd:
  assumes "entries s' = map (\<lambda>x. if entry_id x = i then g x else x) (entries s)"
    and "\<And>x. entry_id (g x) = entry_id x"
  shows "findEntry i s' = map_option g (findEntry i s)"
proof -
  have "find (\<lambda>x. entry_id x = i) (map (\<lambda>x. if entry_id x = i then g x else x) xs)
          = map_option g (find (\<lambda>x. entry_id x = i) xs)" for xs
    using assms(2) by (induction xs) auto
  then show ?thesis by (simp add: findEntry_def assms(1))
qed

lemma registerExit_closes:
  assumes "registerExit i now s = (Inr (e', b), s')"
  shows "findEntry i s' = Some e'" and "exitDateTime e' = Some now"
proof -
  from assms obtain e p where fe: "findEntry i s = Some e" and op: "exitDateTime e = None"
    and "findParking (parkingCode e) s = Some p"
    and e': "e' = exitData now (exitCharge (hourlyFee p) (entryDateTime e) now) e"
    and es: "entries s' =
       map (\<lambda>x. if entry_id x = i
                then exitData now (exitCharge (hourlyFee p) (entryDateTime e) now) x else x)
         (entries s)"
    and ps: "parkings s' =
       map (\<lambda>q. if code q = parkingCode e then incrementAvailableSpaces 1 q else q)
         (parkings s)"
    and "totalAmount b = Some (exitCharge (hourlyFee p) (entryDateTime e) now)"
    and "bill_hourlyFee b = hourlyFee p"
    and "bill_durationInHours b = durationInHours (entryDateTime e) now"
    by (rule registerExit_ok)
  show "findEntry i s' = Some e'"
    using findEntry_upd [OF es exitData_simps(1)] fe e' by simp
  show "exitDateTime e' = Some now"
    by (simp add: e' exitData_simps)
qed

lemma in_map_fixed: "x \<in> set xs \<Longrightarrow> f x = x \<Longrightarrow> x \<in> set (map f xs)"
  by (induction xs) auto

lemma registerExit_closed_conflict:
  assumes "findEntry i s = Some x" and "exitDateTime x \<noteq> None"
  shows "registerExit i now s = (Inl Conflict, s)"
  using assms by (simp add: registerExit_def)

lemma closed_kept_registerExit:
  assumes wf: "wf_store s" and x: "x \<in> set (entries s)" and cl: "exitDateTime x \<noteq> None"
  shows "x \<in> set (entries (snd (registerExit j now s)))"
proof (cases "fst (registerExit j now s)")
  case (Inl err)
  then have "snd (registerExit j now s) = s"
    using registerExit_fail [of j now s err] by (metis prod.collapse)
  with x show ?thesis by simp
next
  case (Inr ok)
  obtain e' b where ok: "ok = (e', b)" by (cases ok)
  let ?s' = "snd (registerExit j now s)"
  have r: "registerExit j now s = (Inr (e', b), ?s')"
    using Inr ok by (metis prod.collapse)
  from r obtain e p where fe: "findEntry j s = Some e" and op: "exitDateTime e = None"
    and "findParking (parkingCode e) s = Some p"
    and "e' = exitData now (exitCharge (hourlyFee p) (entryDateTime e) now) e"
    and es: "entries ?s' =
       map (\<lambda>x. if entry_id x = j
                then exitData now (exitCharge (hourlyFee p) (entryDateTime e) now) x else x)
         (entries s)"
    and ps: "parkings ?s' =
       map (\<lambda>q. if code q = parkingCode e then incrementAvailableSpaces 1 q else q)
         (parkings s)"
    and "totalAmount b = Some (exitCharge (hourlyFee p) (entryDateTime e) now)"
    and "bill_hourlyFee b = hourlyFee p"
    and "bill_durationInHours b = durationInHours (entryDateTime e) now"
    by (rule registerExit_ok)
  have "entry_id x \<noteq> j"
  proof
    assume "entry_id x = j"
    with findEntry_wf [OF wf x] fe have "e = x" by simp
    with op cl show False by simp
  qed
  then have "(if entry_id x = j
      then exitData now (exitCharge (hourlyFee p) (entryDateTime e) now) x else x) = x"
    by simp
  with x show ?thesis
    unfolding es by (rule in_map_fixed)
qed

lemma closed_kept_registerEntry:
  "x \<in> set (entries s) \<Longrightarrow> x \<in> set (entries (snd (registerEntry plate c newId now s)))"
  by (auto simp: registerEntry_def Let_def updateParkingWhere_def split: option.splits)

lemma closed_kept_api:
  assumes "wf_store s" and "x \<in> set (entries s)" and "exitDateTime x \<noteq> None"
  shows "x \<in> set (entries (api r s))"
  using assms
  by (cases r)
    (simp_all add: api_def entries_createParking entries_updateParking entries_deleteParking
      closed_kept_registerEntry closed_kept_registerExit)

lemma closed_kept_run:
  "wf_store s \<Longrightarrow> x \<in> set (entries s) \<Longrightarrow> exitDateTime x \<noteq> None \<Longrightarrow>
   x \<in> set (entries (run rs s))"
  by (induction rs arbitrary: s) (simp_all add: wf_api closed_kept_api)

text \<open>
  C5. For every store state, \<open>registerExit\<close> answers not found when no entry has the
  given id and conflict when that entry already has an exit time, and a failed exit
  leaves the store as it was. Closed is terminal: once a successful exit has closed an
  entry, then after any further sequence of API requests the entry is still stored
  exactly as that exit left it, and every further exit on it answers conflict and
  changes nothing.
\<close>

theorem registerExit_failures_and_closed_terminal:
  "((\<forall>x \<in> set (entries s). entry_id x \<noteq> i) \<longrightarrow> registerExit i now s = (Inl NotFound, s))
   \<and> (wf_store s \<and> x \<in> set (entries s) \<and> entry_id x = i \<and> exitDateTime x \<noteq> None \<longrightarrow>
        registerExit i now s = (Inl Conflict, s))
   \<and> (fst (registerExit i now s) = Inl err \<longrightarrow> snd (registerExit i now s) = s)
   \<and> (wf_store s \<and> registerExit i now s = (Inr (e', b), s') \<longrightarrow>
        findEntry i (run rs s') = Some e' \<and> exitDateTime e' = Some now
        \<and> registerExit i now' (run rs s') = (Inl Conflict, run rs s'))"
proof -
  have nf: "registerExit i now s = (Inl NotFound, s)"
    if "\<forall>x \<in> set (entries s). entry_id x \<noteq> i"
    using that findEntry_None [of i s] by (simp add: registerExit_def)
  have cf: "registerExit i now s = (Inl Conflict, s)"
    if "wf_store s" "x \<in> set (entries s)" "entry_id x = i" "exitDateTime x \<noteq> None"
    using that findEntry_wf [of s x] registerExit_closed_conflict [of i s x now] by simp
  have un: "snd (registerExit i now s) = s" if "fst (registerExit i now s) = Inl err"
    using that registerExit_fail [of i now s err] by (metis prod.collapse)
  have tm: "findEntry i (run rs s') = Some e' \<and> exitDateTime e' = Some now
        \<and> registerExit i now' (run rs s') = (Inl Conflict, run rs s')"
    if wf: "wf_store s" and r: "registerExit i now s = (Inr (e', b), s')"
  proof -
    have wf': "wf_store s'"
      using wf_registerExit [OF wf, of i now] r by simp
    note cl = registerExit_closes [OF r]
    from cl(1) have in': "e' \<in> set (entries s')" and id': "entry_id e' = i"
      using findEntry_SomeD by blast+
    have "e' \<in> set (entries (run rs s'))"
      using closed_kept_run [OF wf' in'] cl(2) by simp
    then have f: "findEntry i (run rs s') = Some e'"
      using findEntry_wf [OF wf_run [OF wf', of rs]] id' by blast
    show ?thesis
      using f cl(2) registerExit_closed_conflict [OF f, of now'] by simp
  qed
  show ?thesis
    using nf cf un tm by blast
qed

theorem registerExit_failures_and_closed_terminal_witness:
  "registerExit ''e9'' 7200000 one_car = (Inl NotFound, one_car)
   \<and> registerExit ''e1'' 7200000 two_visits = (Inl Conflict, two_visits)
   \<and> findEntry ''e1''
        (run [PostEntry ''RAB123A'' ''P002'' ''e3'' 4000000, PutEntryExit ''e1'' 5000000,
              PutParking ''P002'' None None None (Some 3)]
          (snd (registerExit ''e1'' 3900000 one_car)))
       = Some \<lparr>entry_id = ''e1'', plateNumber = ''RAB123A'', parkingCode = ''P002'',
                entryDateTime = 0, exitDateTime = Some 3900000, chargedAmount = Some 4\<rparr>
   \<and> fst (registerExit ''e1'' 7200000
        (run [PostEntry ''RAB123A'' ''P002'' ''e3'' 4000000, PutEntryExit ''e1'' 5000000,
              PutParking ''P002'' None None None (Some 3)]
          (snd (registerExit ''e1'' 3900000 one_car)))) = Inl Conflict"
proof -
  let ?e1 = "\<lparr>entry_id = ''e1'', plateNumber = ''RAB123A'', parkingCode = ''P002'',
              entryDateTime = 0, exitDateTime = Some 3900000, chargedAmount = Some 4\<rparr>"
  let ?rs = "[PostEntry ''RAB123A'' ''P002'' ''e3'' 4000000, PutEntryExit ''e1'' 5000000,
              PutParking ''P002'' None None None (Some 3)]"
  let ?s' = "snd (registerExit ''e1'' 3900000 one_car)"
  have a: "\<forall>x \<in> set (entries one_car). entry_id x \<noteq> ''e9''" by code_simp
  have wf2: "wf_store two_visits" by code_simp
  have in2: "?e1 \<in> set (entries two_visits)" by code_simp
  have b: "wf_store two_visits \<and> ?e1 \<in> set (entries two_visits) \<and> entry_id ?e1 = ''e1''
      \<and> exitDateTime ?e1 \<noteq> None"
    using wf2 in2 by simp
  have wf1: "wf_store one_car" by code_simp
  have "map_sum id fst (fst (registerExit ''e1'' 3900000 one_car)) = Inr ?e1"
    by code_simp
  then obtain b where "fst (registerExit ''e1'' 3900000 one_car) = Inr (?e1, b)"
    by (cases "fst (registerExit ''e1'' 3900000 one_car)") auto
  then have ex: "registerExit ''e1'' 3900000 one_car = (Inr (?e1, b), ?s')"
    by (metis prod.collapse)
  have c: "wf_store one_car \<and> registerExit ''e1'' 3900000 one_car = (Inr (?e1, b), ?s')"
    using wf1 ex by simp
  from registerExit_failures_and_closed_terminal
      [where s = one_car and i = "''e9''" and now = 7200000] a
  have 1: "registerExit ''e9'' 7200000 one_car = (Inl NotFound, one_car)" by blast
  from registerExit_failures_and_closed_terminal
      [where s = two_visits and i = "''e1''" and now = 7200000 and x = ?e1] b
  have 2: "registerExit ''e1'' 7200000 two_visits = (Inl Conflict, two_visits)" by blast
  from registerExit_failures_and_closed_terminal
      [where s = one_car and i = "''e1''" and now = 3900000 and e' = ?e1 and b = b
         and s' = ?s' and rs = ?rs and now' = 7200000] c
  have 3: "findEntry ''e1'' (run ?rs ?s') = Some ?e1
      \<and> registerExit ''e1'' 7200000 (run ?rs ?s') = (Inl Conflict, run ?rs ?s')" by blast
  show ?thesis
    using 1 2 3 by (simp del: run.simps)
qed

section \<open>Filling a parking and freeing a space\<close>

lemma find_append_last:
  "find P xs = None \<Longrightarrow> P x \<Longrightarrow> find P (xs @ [x]) = Some x"
  by (induction xs) (auto split: if_splits)

lemma createParking_found:
  assumes "createParking c nm tot loc fee s = (Inr p, s')"
  shows "findParking c s' = Some p" and "availableSpaces p = tot" and "totalSpaces p = tot"
proof -
  note fx = createParking_ok [OF assms]
  show "findParking c s' = Some p"
    using fx(1) unfolding findParking_def fx(3)
    by (rule find_append_last) (simp add: fx(2))
  show "availableSpaces p = tot" "totalSpaces p = tot"
    by (simp_all add: fx(2))
qed

lemma enterAll_available:
  "enterAll c xs s = Some s' \<Longrightarrow> findParking c s = Some p \<Longrightarrow>
   map_option availableSpaces (findParking c s') = Some (availableSpaces p - int (length xs))"
proof (induction xs arbitrary: s p)
  case Nil
  then show ?case by simp
next
  case (Cons x xs)
  obtain plate newId now where x: "x = (plate, newId, now)" by (cases x)
  from Cons.prems(1) x obtain ok s1 where
    r: "registerEntry plate c newId now s = (Inr ok, s1)" and rest: "enterAll c xs s1 = Some s'"
    by (auto split: prod.splits sum.splits)
  have "findParking c s1 = Some (incrementAvailableSpaces (- 1) p)"
    using findParking_registerEntry [of c plate c newId now s] r Cons.prems(2) by simp
  from Cons.IH [OF rest this] show ?case
    by (auto simp: incrementAvailableSpaces_simps algebra_simps)
qed

lemma registerEntry_full:
  "findParking c s = Some p \<Longrightarrow> availableSpaces p \<le> 0 \<Longrightarrow>
   registerEntry plate c newId now s = (Inl BadRequest, s)"
  by (simp add: registerEntry_def)

text \<open>
  C6. A parking created with 50 total spaces starts with 50 available; after 50
  successive successful entry registrations at it none is available and any further
  entry registration is refused for lack of capacity, leaving the store unchanged; after
  one exit of an entry of that parking one space is available again, and a further entry
  registration (a plate with no open entry there, a fresh key) succeeds and takes it.
\<close>

theorem fill_fifty_then_free_one:
  assumes "createParking c nm 50 loc fee s0 = (Inr p, s1)"
    and "length xs = 50" and "enterAll c xs s1 = Some s2"
  shows "map_option availableSpaces (findParking c s1) = Some 50
    \<and> map_option availableSpaces (findParking c s2) = Some 0
    \<and> registerEntry plate c newId now s2 = (Inl BadRequest, s2)
    \<and> (registerExit i now' s2 = (Inr (e', b), s3) \<and> parkingCode e' = c \<longrightarrow>
          map_option availableSpaces (findParking c s3) = Some 1
          \<and> (findActiveEntry plate' c s3 = None \<and> findEntry newId' s3 = None \<longrightarrow>
               (\<exists>e t s4. registerEntry plate' c newId' now'' s3 = (Inr (e, t), s4)
                  \<and> map_option availableSpaces (findParking c s4) = Some 0)))"
proof -
  note cr = createParking_found [OF assms(1)]
  have a1: "map_option availableSpaces (findParking c s1) = Some 50"
    using cr by simp
  have a2: "map_option availableSpaces (findParking c s2) = Some 0"
    using enterAll_available [OF assms(3) cr(1)] cr(2) assms(2) by simp
  then obtain p2 where p2: "findParking c s2 = Some p2" and z: "availableSpaces p2 = 0"
    by auto
  have full: "registerEntry plate c newId now s2 = (Inl BadRequest, s2)"
    using registerEntry_full [OF p2] z by simp
  have after: "map_option availableSpaces (findParking c s3) = Some 1
      \<and> (findActiveEntry plate' c s3 = None \<and> findEntry newId' s3 = None \<longrightarrow>
           (\<exists>e t s4. registerEntry plate' c newId' now'' s3 = (Inr (e, t), s4)
              \<and> map_option availableSpaces (findParking c s4) = Some 0))"
    if r: "registerExit i now' s2 = (Inr (e', b), s3)" and pc: "parkingCode e' = c"
  proof -
    from r obtain e q where fe: "findEntry i s2 = Some e" and op: "exitDateTime e = None"
      and "findParking (parkingCode e) s2 = Some q"
      and e': "e' = exitData now' (exitCharge (hourlyFee q) (entryDateTime e) now') e"
      and es: "entries s3 =
         map (\<lambda>x. if entry_id x = i
                  then exitData now' (exitCharge (hourlyFee q) (entryDateTime e) now') x else x)
           (entries s2)"
      and ps: "parkings s3 =
         map (\<lambda>q. if code q = parkingCode e then incrementAvailableSpaces 1 q else q)
           (parkings s2)"
      and "totalAmount b = Some (exitCharge (hourlyFee q) (entryDateTime e) now')"
      and "bill_hourlyFee b = hourlyFee q"
      and "bill_durationInHours b = durationInHours (entryDateTime e) now'"
      by (rule registerExit_ok)
    have ce: "parkingCode e = c" using pc e' by (simp add: exitData_simps)
    have p3: "findParking c s3 = Some (incrementAvailableSpaces 1 p2)"
      using findParking_registerExit [of c i now' s2] r fe ce p2 by simp
    then have one: "map_option availableSpaces (findParking c s3) = Some 1"
      using z by (simp add: incrementAvailableSpaces_simps)
    have again: "\<exists>e t s4. registerEntry plate' c newId' now'' s3 = (Inr (e, t), s4)
              \<and> map_option availableSpaces (findParking c s4) = Some 0"
      if "findActiveEntry plate' c s3 = None" "findEntry newId' s3 = None"
    proof -
      have "0 < availableSpaces (incrementAvailableSpaces 1 p2)"
        using z by (simp add: incrementAvailableSpaces_simps)
      from registerEntry_succeeds [OF p3 this that, of now'']
      obtain e t s4 where r4: "registerEntry plate' c newId' now'' s3 = (Inr (e, t), s4)"
        by blast
      have "map_option availableSpaces (findParking c s4) = Some 0"
        using findParking_registerEntry [of c plate' c newId' now'' s3] r4 p3 z
        by (simp add: incrementAvailableSpaces_simps)
      with r4 show ?thesis by blast
    qed
    show ?thesis using one again by blast
  qed
  show ?thesis
    using a1 a2 full after by blast
qed

theorem fill_fifty_then_free_one_witness:
  "length fifty_cars = 50
   \<and> enterAll ''P002'' fifty_cars fresh_lot = Some full_lot
   \<and> map_option availableSpaces (findParking ''P002'' fresh_lot) = Some 50
   \<and> map_option availableSpaces (findParking ''P002'' full_lot) = Some 0
   \<and> registerEntry ''RAF051A'' ''P002'' ''e51'' 3060000 full_lot = (Inl BadRequest, full_lot)
   \<and> map_option availableSpaces
        (findParking ''P002'' (snd (registerExit ''e07'' 3900000 full_lot))) = Some 1
   \<and> \<not> isl (fst (registerEntry ''RAF051A'' ''P002'' ''e51'' 3960000
        (snd (registerExit ''e07'' 3900000 full_lot))))"
proof -
  let ?p = "\<lparr>code = ''P002'', name = ''North Parking'', totalSpaces = 50, availableSpaces = 50,
             location = ''North District'', hourlyFee = 2\<rparr>"
  let ?s3 = "snd (registerExit ''e07'' 3900000 full_lot)"
  have cr: "createParking ''P002'' ''North Parking'' 50 ''North District'' 2 empty_store
      = (Inr ?p, fresh_lot)"
    unfolding fresh_lot_def
    by (simp add: createParking_def findParking_def empty_store_def Let_def)
  have len: "length fifty_cars = 50" by code_simp
  have "enterAll ''P002'' fifty_cars fresh_lot \<noteq> None" by code_simp
  then have all: "enterAll ''P002'' fifty_cars fresh_lot = Some full_lot"
    by (simp add: full_lot_def)
  have "map_sum id (parkingCode \<circ> fst) (fst (registerExit ''e07'' 3900000 full_lot))
      = Inr ''P002''"
    by code_simp
  then obtain e' b where "fst (registerExit ''e07'' 3900000 full_lot) = Inr (e', b)"
    and pc: "parkingCode e' = ''P002''"
    by (cases "fst (registerExit ''e07'' 3900000 full_lot)") auto
  then have ex: "registerExit ''e07'' 3900000 full_lot = (Inr (e', b), ?s3)"
    by (metis prod.collapse)
  have fresh: "findActiveEntry ''RAF051A'' ''P002'' ?s3 = None \<and> findEntry ''e51'' ?s3 = None"
    by code_simp
  from fill_fifty_then_free_one [OF cr len all, where plate = "''RAF051A''" and newId = "''e51''"
      and now = 3060000 and i = "''e07''" and now' = 3900000 and e' = e' and b = b and ?s3.0 = ?s3
      and plate' = "''RAF051A''" and newId' = "''e51''" and now'' = 3960000]
    ex pc fresh
  have "map_option availableSpaces (findParking ''P002'' fresh_lot) = Some 50"
    and "map_option availableSpaces (findParking ''P002'' full_lot) = Some 0"
    and "registerEntry ''RAF051A'' ''P002'' ''e51'' 3060000 full_lot = (Inl BadRequest, full_lot)"
    and "map_option availableSpaces (findParking ''P002'' ?s3) = Some 1"
    and "\<exists>e t s4. registerEntry ''RAF051A'' ''P002'' ''e51'' 3960000 ?s3 = (Inr (e, t), s4)"
    by blast+
  with len all show ?thesis by auto
qed

section \<open>Occupancy report\<close>

lemma totals_positive_api:
  assumes "\<forall>p \<in> set (parkings s). 1 \<le> totalSpaces p"
  shows "\<forall>p \<in> set (parkings (api r s)). 1 \<le> totalSpaces p"
proof (cases "validateRequest r")
  case False
  then show ?thesis using assms by (simp add: api_def)
next
  case valid: True
  show ?thesis
  proof (cases r)
    case (PostParking c nm tot loc fee)
    then show ?thesis
      using assms valid
      by (auto simp: api_def createParking_def Let_def split: option.splits)
  next
    case (PutParking c nm tot loc fee)
    show ?thesis
    proof (cases "findParking c s")
      case None
      then show ?thesis
        using assms valid PutParking by (simp add: api_def updateParking_def)
    next
      case (Some p)
      then have "1 \<le> totalSpaces p"
        using assms findParking_SomeD [of c s p] by blast
      then have "1 \<le> totalSpaces (updateData p nm tot loc fee q)" for q
        using valid PutParking by (cases tot) (auto simp: updateData_simps)
      then show ?thesis
        using assms valid PutParking Some
        by (auto simp: api_def updateParking_def Let_def updateParkingWhere_def)
    qed
  next
    case (DeleteParking c)
    then show ?thesis
      using assms valid
      by (auto simp: api_def deleteParking_def Let_def split: option.splits)
  next
    case (PostEntry plate c newId now)
    then show ?thesis
      using assms valid
      by (auto simp: api_def registerEntry_def Let_def updateParkingWhere_def
          incrementAvailableSpaces_simps split: option.splits)
  next
    case (PutEntryExit i now)
    then show ?thesis
      using assms valid
      by (auto simp: api_def registerExit_def Let_def updateParkingWhere_def updateEntryWhere_def
          incrementAvailableSpaces_simps split: option.splits)
  qed
qed

lemma totals_positive_run:
  "\<forall>p \<in> set (parkings s). 1 \<le> totalSpaces p \<Longrightarrow>
   \<forall>p \<in> set (parkings (run rs s)). 1 \<le> totalSpaces p"
proof (induction rs arbitrary: s)
  case Nil
  then show ?case by simp
next
  case (Cons r rs)
  from Cons.prems have "\<forall>p \<in> set (parkings (api r s)). 1 \<le> totalSpaces p"
    by (rule totals_positive_api)
  then have "\<forall>p \<in> set (parkings (run rs (api r s))). 1 \<le> totalSpaces p"
    by (rule Cons.IH)
  then show ?case by simp
qed

lemma occupancyRate_error:
  fixes n :: nat and t :: int
  assumes "1 \<le> t" and "t < 2 ^ 31" and "n < 2 ^ 53"
  shows "\<exists>c. toNumber (fl (of_nat n / of_int t) * 100) = Some c
           \<and> \<bar>c - of_nat n / of_int t * 100\<bar> \<le> of_nat n / of_int t * 100 / 2 ^ 51"
proof (cases "n = 0")
  case True
  then show ?thesis by (simp add: fl_0 toNumber_0)
next
  case False
  define x :: rat where "x = of_nat n / of_int t"
  define d where "d = fl x"
  define y where "y = d * 100"
  have t1: "(1::rat) \<le> of_int t" using assms(1) by simp
  have "t \<le> 2 ^ 31" using assms(2) by simp
  then have tt: "(of_int t :: rat) \<le> 2 ^ 31" by (rule of_int_le_pow2)
  have n1: "(1::rat) \<le> of_nat n" using False by simp
  have "int n < 2 ^ 53" using assms(3) by (metis of_nat_less_iff of_nat_numeral of_nat_power)
  then have "(of_int (int n) :: rat) < 2 ^ 53"
    by (metis of_int_less_iff of_int_numeral of_int_power)
  then have nn: "(of_nat n :: rat) < 9007199254740992" by simp
  have "1 / 2 ^ 31 \<le> of_nat n / (of_int t :: rat)"
    using n1 t1 tt by (intro frac_le) simp_all
  then have xlo: "1 / 2147483648 \<le> x" by (simp add: x_def)
  have "of_nat n / (of_int t :: rat) \<le> of_nat n / 1"
    using n1 t1 by (intro frac_le) simp_all
  then have xhi: "x < 9007199254740992" using nn by (simp add: x_def)
  have xpos: "0 < x" using xlo by simp
  have "1 / 2 ^ 40 \<le> x" using xlo by simp
  then have "2 powi (- 1022) \<le> \<bar>x\<bar>" using normal_threshold by simp
  then have "\<bar>d - x\<bar> \<le> \<bar>x\<bar> / 2 ^ 53" unfolding d_def by (rule fl_rel_error)
  then have e1: "\<bar>d - x\<bar> \<le> x / 9007199254740992" using xpos by simp
  have ylo': "50 * x \<le> y" and yhi': "y \<le> 200 * x"
    using e1 xpos unfolding y_def by linarith+
  have "1 / 2 ^ 40 \<le> y" using ylo' xlo by simp
  then have ynorm: "2 powi (- 1022) \<le> y" using normal_threshold by linarith
  have "y < 1801439850948198400" using yhi' xhi by linarith
  then have "y < 2 ^ 1023" by simp
  with ynorm obtain c where c: "toNumber y = Some c" and ec: "\<bar>c - y\<bar> \<le> y / 2 ^ 53"
    using toNumber_rel_error by blast
  from ec have e2: "\<bar>c - y\<bar> \<le> y / 9007199254740992" by simp
  have "\<bar>c - x * 100\<bar> \<le> x * 100 / 2251799813685248"
    using e1 e2 yhi' xpos unfolding y_def by linarith
  then have "\<bar>c - x * 100\<bar> \<le> x * 100 / 2 ^ 51" by simp
  with c show ?thesis by (simp add: y_def d_def x_def)
qed

lemma thirty_percent: "toNumber (fl (of_nat 30 / of_int 100) * 100) = Some 30"
  by code_simp

text \<open>
  C8 (as amended). The occupancy report has one row per parking, in order; the row of a
  parking gives as occupied spaces the number of entries of that parking with no exit
  time, and as occupancy rate the double-precision value of
  \<open>(occupied / total) * 100\<close>: the quotient is rounded to a double, and so is its product
  with 100. For a total between 1 and \<open>2\<^sup>3\<^sup>1\<close> (the column is a 32-bit integer; in every
  store reached through the API the total is at least one) the rate is a number within a
  relative error of \<open>2\<^sup>-\<^sup>5\<^sup>1\<close> of the exact \<open>occupied / total \<times> 100\<close>, which it need not
  equal. For a parking of 100 spaces with 30 open entries the rate is exactly 30.
\<close>

theorem occupancy_report_rows:
  "length (getParkingOccupancyReport s) = length (parkings s)
   \<and> (k < length (parkings s) \<longrightarrow>
        occ_parkingCode (getParkingOccupancyReport s ! k) = code (parkings s ! k)
        \<and> occupiedSpaces (getParkingOccupancyReport s ! k)
            = card {j. j < length (entries s)
                      \<and> parkingCode (entries s ! j) = code (parkings s ! k)
                      \<and> exitDateTime (entries s ! j) = None}
        \<and> (totalSpaces (parkings s ! k) \<noteq> 0 \<longrightarrow>
             occupancyRate (getParkingOccupancyReport s ! k)
               = toNumber (fl (of_nat (occupiedSpaces (getParkingOccupancyReport s ! k))
                                 / of_int (totalSpaces (parkings s ! k))) * 100))
        \<and> (1 \<le> totalSpaces (parkings s ! k) \<and> totalSpaces (parkings s ! k) < 2 ^ 31
              \<and> occupiedSpaces (getParkingOccupancyReport s ! k) < 2 ^ 53 \<longrightarrow>
             (\<exists>c. occupancyRate (getParkingOccupancyReport s ! k) = Some c
                \<and> \<bar>c - of_nat (occupiedSpaces (getParkingOccupancyReport s ! k))
                          / of_int (totalSpaces (parkings s ! k)) * 100\<bar>
                    \<le> of_nat (occupiedSpaces (getParkingOccupancyReport s ! k))
                          / of_int (totalSpaces (parkings s ! k)) * 100 / 2 ^ 51))
        \<and> (s = run rs empty_store \<longrightarrow> totalSpaces (parkings s ! k) \<noteq> 0)
        \<and> (totalSpaces (parkings s ! k) = 100
              \<and> occupiedSpaces (getParkingOccupancyReport s ! k) = 30 \<longrightarrow>
             occupancyRate (getParkingOccupancyReport s ! k) = Some 30))"
proof -
  let ?r = "getParkingOccupancyReport s ! k"
  let ?p = "parkings s ! k"
  have len: "length (getParkingOccupancyReport s) = length (parkings s)"
    by (simp add: getParkingOccupancyReport_def)
  have cnt: "countActive c s
      = card {j. j < length (entries s) \<and> parkingCode (entries s ! j) = c
                \<and> exitDateTime (entries s ! j) = None}" for c
    by (simp add: countActive_def length_filter_conv_card)
  have pos: "totalSpaces ?p \<noteq> 0"
    if "k < length (parkings s)" "s = run rs empty_store"
  proof -
    have "\<forall>p \<in> set (parkings (run rs empty_store)). 1 \<le> totalSpaces p"
      by (rule totals_positive_run) (simp add: empty_store_def)
    with that have "1 \<le> totalSpaces ?p" by simp
    then show ?thesis by simp
  qed
  have cd: "occ_parkingCode ?r = code ?p" if "k < length (parkings s)"
    using that by (simp add: getParkingOccupancyReport_def Let_def)
  have oc: "occupiedSpaces ?r
      = card {j. j < length (entries s) \<and> parkingCode (entries s ! j) = code ?p
                \<and> exitDateTime (entries s ! j) = None}" if "k < length (parkings s)"
    using that cnt [of "code ?p"] by (simp add: getParkingOccupancyReport_def Let_def)
  have rt: "occupancyRate ?r
      = toNumber (fl (of_nat (occupiedSpaces ?r) / of_int (totalSpaces ?p)) * 100)"
    if "k < length (parkings s)" "totalSpaces ?p \<noteq> 0"
    using that by (simp add: getParkingOccupancyReport_def Let_def)
  have er: "\<exists>c. occupancyRate ?r = Some c
        \<and> \<bar>c - of_nat (occupiedSpaces ?r) / of_int (totalSpaces ?p) * 100\<bar>
              \<le> of_nat (occupiedSpaces ?r) / of_int (totalSpaces ?p) * 100 / 2 ^ 51"
    if "k < length (parkings s)" "1 \<le> totalSpaces ?p" "totalSpaces ?p < 2 ^ 31"
      "occupiedSpaces ?r < 2 ^ 53"
  proof -
    from that(2) have "totalSpaces ?p \<noteq> 0" by simp
    with that(1) have "occupancyRate ?r
        = toNumber (fl (of_nat (occupiedSpaces ?r) / of_int (totalSpaces ?p)) * 100)"
      by (rule rt)
    moreover from that(2-4)
    have "\<exists>c. toNumber (fl (of_nat (occupiedSpaces ?r) / of_int (totalSpaces ?p)) * 100) = Some c
        \<and> \<bar>c - of_nat (occupiedSpaces ?r) / of_int (totalSpaces ?p) * 100\<bar>
              \<le> of_nat (occupiedSpaces ?r) / of_int (totalSpaces ?p) * 100 / 2 ^ 51"
      by (rule occupancyRate_error)
    ultimately show ?thesis by (simp only:)
  qed
  have th: "occupancyRate ?r = Some 30"
    if "k < length (parkings s)" "totalSpaces ?p = 100" "occupiedSpaces ?r = 30"
  proof -
    from that(2) have "totalSpaces ?p \<noteq> 0" by simp
    with that(1) have "occupancyRate ?r
        = toNumber (fl (of_nat (occupiedSpaces ?r) / of_int (totalSpaces ?p)) * 100)"
      by (rule rt)
    then show ?thesis by (simp only: that(2,3) thirty_percent)
  qed
  show ?thesis
    using len cd oc rt er pos th by blast
qed

theorem occupancy_report_rows_witness:
  "map occupiedSpaces (getParkingOccupancyReport thirty_open) = [30]
   \<and> map occ_totalSpaces (getParkingOccupancyReport thirty_open) = [100]
   \<and> occupancyRate (getParkingOccupancyReport thirty_open ! 0) = Some 30"
proof -
  let ?rs = "PostParking ''P001'' ''Central Parking'' 100 ''Downtown'' (5/2)
          # map (\<lambda>(plate, newId, now). PostEntry plate ''P001'' newId now) (take 30 fifty_cars)"
  have a: "map occupiedSpaces (getParkingOccupancyReport thirty_open) = [30]"
    and b: "map occ_totalSpaces (getParkingOccupancyReport thirty_open) = [100]"
    and c: "map totalSpaces (parkings thirty_open) = [100]"
    by code_simp+
  from a have a': "occupiedSpaces (getParkingOccupancyReport thirty_open ! 0) = 30"
    by (metis nth_Cons_0 nth_map length_map length_greater_0_conv list.distinct(1))
  from c have k: "0 < length (parkings thirty_open)"
    and c': "totalSpaces (parkings thirty_open ! 0) = 100"
    by (metis length_map length_greater_0_conv list.distinct(1),
        metis nth_Cons_0 nth_map length_map length_greater_0_conv list.distinct(1))
  have "thirty_open = run ?rs empty_store" by (simp only: thirty_open_def)
  with occupancy_report_rows [of thirty_open 0 ?rs] k a' c'
  have "occupancyRate (getParkingOccupancyReport thirty_open ! 0) = Some 30"
    by blast
  with a b show ?thesis by simp
qed

text \<open>
  The reported rate is not always the exact \<open>occupied / total \<times> 100\<close>: with 7 open entries
  in a parking of 100 spaces the exact value is 7 and the report gives
  \<open>7 + 2\<^sup>-\<^sup>5\<^sup>0\<close>, printed 7.000000000000001.
\<close>

theorem occupancy_rate_seven_of_hundred_counterexample:
  "map occupiedSpaces (getParkingOccupancyReport seven_open) = [7]
   \<and> map occ_totalSpaces (getParkingOccupancyReport seven_open) = [100]
   \<and> map occupancyRate (getParkingOccupancyReport seven_open)
       = [Some (7881299347898369 / 1125899906842624)]
   \<and> (7881299347898369 / 1125899906842624 :: rat) = 7 + 1 / 2 ^ 50
   \<and> (of_nat 7 / of_int 100 * 100 :: rat) = 7"
  by code_simp


section \<open>The fee billed is the fee at exit time\<close>

lemma exit_after_fee_update:
  assumes en: "registerEntry plate c newId now s = (Inr (e, t), s1)"
    and up: "updateParking c nm tot loc (Some f) s1 = (Inr p', s2)" and f: "f \<noteq> 0"
    and ex: "registerExit newId now' s2 = (Inr (e', b), s3)"
  shows "chargedAmount e' = Some (f * of_int (durationInHours now now'))"
    and "totalAmount b = chargedAmount e'" and "bill_hourlyFee b = f"
    and "bill_durationInHours b = durationInHours now now'"
proof -
  from en obtain p where p: "findParking c s = Some p" and pos: "0 < availableSpaces p"
    and "ticket_hourlyFee t = hourlyFee p"
    and "findActiveEntry plate c s = None"
    and fresh: "findEntry newId s = None"
    and e: "e = \<lparr>entry_id = newId, plateNumber = plate, parkingCode = c, entryDateTime = now,
          exitDateTime = None, chargedAmount = None\<rparr>"
    and es1: "entries s1 = entries s @ [e]"
    and ps1: "parkings s1 =
       map (\<lambda>q. if code q = c then incrementAvailableSpaces (- 1) q else q) (parkings s)"
    by (rule registerEntry_ok)
  from up obtain p1 where p1: "findParking c s1 = Some p1"
    and "p' = updateData p1 nm tot loc (Some f) p1"
    and ps2: "parkings s2 =
       map (\<lambda>q. if code q = c then updateData p1 nm tot loc (Some f) q else q) (parkings s1)"
    and es2: "entries s2 = entries s1"
    by (rule updateParking_ok)
  have fe: "findEntry newId s2 = Some e"
    using fresh unfolding findEntry_def es2 es1
    by (rule find_append_last) (simp add: e)
  have fp: "findParking c s2 = Some (updateData p1 nm tot loc (Some f) p1)"
    using findParking_updateParking [of c c nm tot loc "Some f" s1] up p1 by simp
  from ex obtain e0 q where fe0: "findEntry newId s2 = Some e0"
    and "exitDateTime e0 = None"
    and q: "findParking (parkingCode e0) s2 = Some q"
    and e': "e' = exitData now' (exitCharge (hourlyFee q) (entryDateTime e0) now') e0"
    and "entries s3 =
       map (\<lambda>x. if entry_id x = newId
                then exitData now' (exitCharge (hourlyFee q) (entryDateTime e0) now') x else x)
         (entries s2)"
    and "parkings s3 =
       map (\<lambda>q. if code q = parkingCode e0 then incrementAvailableSpaces 1 q else q)
         (parkings s2)"
    and ta: "totalAmount b = Some (exitCharge (hourlyFee q) (entryDateTime e0) now')"
    and bf: "bill_hourlyFee b = hourlyFee q"
    and bd: "bill_durationInHours b = durationInHours (entryDateTime e0) now'"
    by (rule registerExit_ok)
  have e0: "e0 = e" using fe fe0 by simp
  have "q = updateData p1 nm tot loc (Some f) p1"
    using q fp e0 by (simp add: e)
  then have hq: "hourlyFee q = f"
    using f by (simp add: updateData_simps)
  show "chargedAmount e' = Some (f * of_int (durationInHours now now'))"
    by (simp add: e' exitData_simps hq e0 e exitCharge_def)
  then show "totalAmount b = chargedAmount e'"
    by (simp add: ta hq e0 e exitCharge_def)
  show "bill_hourlyFee b = f" by (simp add: bf hq)
  show "bill_durationInHours b = durationInHours now now'" by (simp add: bd e0 e)
qed

text \<open>
  C10. The exit handler bills the parking's hourly fee as it is when the car leaves, not
  the fee printed on the ticket. Whenever an entry is registered, the parking's fee is
  then updated to a different non-zero value and the entry is then closed at a later
  instant, the charged amount is the new fee times the charged hours and differs from
  the ticket's fee times the same hours. Such a sequence exists: at fee 2 on the ticket,
  an update to 3 and an exit after 65 minutes, the charge is 3 * 2 = 6, not 2 * 2.
\<close>

theorem exit_bills_fee_at_exit_time:
  "(registerEntry plate c newId now s = (Inr (e, t), s1)
      \<and> updateParking c nm tot loc (Some f) s1 = (Inr p', s2) \<and> f \<noteq> 0
      \<and> registerExit newId now' s2 = (Inr (e', b), s3)
      \<and> f \<noteq> ticket_hourlyFee t \<and> now < now' \<longrightarrow>
        chargedAmount e' = Some (f * of_int (durationInHours now now'))
        \<and> totalAmount b = chargedAmount e' \<and> bill_hourlyFee b = f
        \<and> chargedAmount e' \<noteq> Some (ticket_hourlyFee t * of_int (durationInHours now now')))
   \<and> map_sum id (ticket_hourlyFee \<circ> snd)
         (fst (registerEntry ''RAB123A'' ''P002'' ''e1'' 0 (run (take 1 fee_changed_visit) empty_store)))
       = Inr 2
   \<and> durationInHours 0 3900000 = 2
   \<and> map hourlyFee (parkings (run fee_changed_visit empty_store)) = [3]
   \<and> map chargedAmount (entries (run fee_changed_visit empty_store)) = [Some (3 * 2)]"
proof -
  have gen: "chargedAmount e' = Some (f * of_int (durationInHours now now'))
        \<and> totalAmount b = chargedAmount e' \<and> bill_hourlyFee b = f
        \<and> chargedAmount e' \<noteq> Some (ticket_hourlyFee t * of_int (durationInHours now now'))"
    if en: "registerEntry plate c newId now s = (Inr (e, t), s1)"
      and up: "updateParking c nm tot loc (Some f) s1 = (Inr p', s2)" and f: "f \<noteq> 0"
      and ex: "registerExit newId now' s2 = (Inr (e', b), s3)"
      and ne: "f \<noteq> ticket_hourlyFee t" and lt: "now < now'"
  proof -
    note fx = exit_after_fee_update [OF en up f ex]
    have "durationInHours now now' \<noteq> 0"
      using durationInHours_pos [OF lt] by simp
    then have "f * of_int (durationInHours now now')
        \<noteq> ticket_hourlyFee t * of_int (durationInHours now now')"
      using ne by simp
    with fx show ?thesis by simp
  qed
  have c1: "map_sum id (ticket_hourlyFee \<circ> snd)
         (fst (registerEntry ''RAB123A'' ''P002'' ''e1'' 0 (run (take 1 fee_changed_visit) empty_store)))
       = Inr 2"
    by code_simp
  have c2: "durationInHours 0 3900000 = 2" by code_simp
  have c3: "map hourlyFee (parkings (run fee_changed_visit empty_store)) = [3]" by code_simp
  have c4: "map chargedAmount (entries (run fee_changed_visit empty_store)) = [Some (3 * 2)]"
    by code_simp
  show ?thesis
    using gen c1 c2 c3 c4 by blast
qed

theorem exit_bills_fee_at_exit_time_witness:
  "map_sum id (chargedAmount \<circ> fst)
     (fst (registerExit ''e1'' 3900000
        (snd (updateParking ''P002'' None None None (Some 3)
           (snd (registerEntry ''RAB123A'' ''P002'' ''e1'' 0
              (run (take 1 fee_changed_visit) empty_store)))))))
     = Inr (Some (3 * of_int (durationInHours 0 3900000)))
   \<and> map_sum id (ticket_hourlyFee \<circ> snd)
        (fst (registerEntry ''RAB123A'' ''P002'' ''e1'' 0
           (run (take 1 fee_changed_visit) empty_store))) = Inr 2
   \<and> (3::rat) * of_int (durationInHours 0 3900000) \<noteq> 2 * of_int (durationInHours 0 3900000)"
proof -
  let ?s = "run (take 1 fee_changed_visit) empty_store"
  let ?s1 = "snd (registerEntry ''RAB123A'' ''P002'' ''e1'' 0 ?s)"
  let ?s2 = "snd (updateParking ''P002'' None None None (Some 3) ?s1)"
  let ?s3 = "snd (registerExit ''e1'' 3900000 ?s2)"
  have tk: "map_sum id (ticket_hourlyFee \<circ> snd)
      (fst (registerEntry ''RAB123A'' ''P002'' ''e1'' 0 ?s)) = Inr 2"
    by code_simp
  then obtain e t where
    "fst (registerEntry ''RAB123A'' ''P002'' ''e1'' 0 ?s) = Inr (e, t)"
    and t: "ticket_hourlyFee t = 2"
    by (cases "fst (registerEntry ''RAB123A'' ''P002'' ''e1'' 0 ?s)") auto
  then have en: "registerEntry ''RAB123A'' ''P002'' ''e1'' 0 ?s = (Inr (e, t), ?s1)"
    by (metis prod.collapse)
  have "\<not> isl (fst (updateParking ''P002'' None None None (Some 3) ?s1))"
    by code_simp
  then obtain p' where "fst (updateParking ''P002'' None None None (Some 3) ?s1) = Inr p'"
    by (cases "fst (updateParking ''P002'' None None None (Some 3) ?s1)") auto
  then have up: "updateParking ''P002'' None None None (Some 3) ?s1 = (Inr p', ?s2)"
    by (metis prod.collapse)
  have "\<not> isl (fst (registerExit ''e1'' 3900000 ?s2))"
    by code_simp
  then obtain e' b where exf: "fst (registerExit ''e1'' 3900000 ?s2) = Inr (e', b)"
    by (cases "fst (registerExit ''e1'' 3900000 ?s2)") auto
  then have ex: "registerExit ''e1'' 3900000 ?s2 = (Inr (e', b), ?s3)"
    by (metis prod.collapse)
  from exit_bills_fee_at_exit_time
    [where plate = "''RAB123A''" and c = "''P002''" and newId = "''e1''" and now = 0 and s = ?s
       and e = e and t = t and ?s1.0 = ?s1 and nm = None and tot = None and loc = None
       and f = 3 and p' = p' and ?s2.0 = ?s2 and now' = 3900000 and e' = e' and b = b
       and ?s3.0 = ?s3]
    en up ex t
  have "chargedAmount e' = Some (3 * of_int (durationInHours 0 3900000))"
    and "chargedAmount e' \<noteq> Some (ticket_hourlyFee t * of_int (durationInHours 0 3900000))"
    by simp_all
  then show ?thesis
    using t tk exf by simp
qed

end
